theory Spec2Isabelle
  imports Complex_Main
begin

section \<open>Dates\<close>

text \<open>
  The validator works on JavaScript \<^verbatim>\<open>Date\<close> objects and reads them through the
  local getters (\<^verbatim>\<open>getMonth\<close>, \<^verbatim>\<open>getDate\<close>, \<^verbatim>\<open>getDay\<close>, \<^verbatim>\<open>getHours\<close>,
  \<^verbatim>\<open>getMinutes\<close>), through \<^verbatim>\<open>getTime\<close> and through
  \<^verbatim>\<open>AdminCore.getBrazilDateString\<close>. A date is modelled by its wall-clock fields
  in the one fixed zone the dashboard runs in (Brasilia time, UTC-03:00, no daylight
  saving): the host zone and \<^verbatim>\<open>America/Sao_Paulo\<close> coincide, so the local getters and
  the Brazil date string read the same calendar day.

  \<open>month\<close> is zero-based as \<^verbatim>\<open>getMonth()\<close> is; \<open>mday\<close> is \<^verbatim>\<open>getDate()\<close>.
  A value that is \<^verbatim>\<open>null\<close>, not a \<^verbatim>\<open>Date\<close>, or an Invalid Date is \<open>None\<close> of
  \<open>jsdate option\<close>.
\<close>

record jsdate =
  year :: int
  month :: nat
  mday :: nat
  hours :: nat
  minutes :: nat
  seconds :: nat
  millis :: nat

definition isLeapYear :: "int \<Rightarrow> bool" where
  "isLeapYear y = (y mod 4 = 0 \<and> (y mod 100 \<noteq> 0 \<or> y mod 400 = 0))"

definition daysInMonth :: "int \<Rightarrow> nat \<Rightarrow> nat" where
  "daysInMonth y m =
     (if m = 1 then (if isLeapYear y then 29 else 28)
      else if m = 3 \<or> m = 5 \<or> m = 8 \<or> m = 10 then 30
      else 31)"

text \<open>The dates a \<^verbatim>\<open>Date\<close> object can hold: a day of the calendar and a time of day.\<close>

definition valid_date :: "jsdate \<Rightarrow> bool" where
  "valid_date d =
     (month d < 12 \<and> 1 \<le> mday d \<and> mday d \<le> daysInMonth (year d) (month d) \<and>
      hours d < 24 \<and> minutes d < 60 \<and> seconds d < 60 \<and> millis d < 1000)"

text \<open>
  \<open>makeDay\<close> is the day number of a calendar day, counted from 1970-01-01 (ECMAScript's
  \<^verbatim>\<open>MakeDay\<close>), computed with the year taken to start in March.
\<close>

definition makeDay :: "int \<Rightarrow> nat \<Rightarrow> nat \<Rightarrow> int" where
  "makeDay y m d =
     (let y' = (if m < 2 then y - 1 else y);
          mp = (if m < 2 then int m + 10 else int m - 2)
      in 365 * y' + y' div 4 - y' div 100 + y' div 400
         + (153 * mp + 2) div 5 + int d - 1 - 719468)"

text \<open>\<^verbatim>\<open>getDay()\<close>: 0 is Sunday; 1970-01-01 was a Thursday.\<close>

definition getDay :: "jsdate \<Rightarrow> nat" where
  "getDay d = nat ((makeDay (year d) (month d) (mday d) + 4) mod 7)"

text \<open>\<^verbatim>\<open>getTime()\<close>: milliseconds since the epoch; local midnight is 03:00 UTC.\<close>

definition getTime :: "jsdate \<Rightarrow> int" where
  "getTime d =
     (((makeDay (year d) (month d) (mday d) * 24 + int (hours d) + 3) * 60
        + int (minutes d)) * 60 + int (seconds d)) * 1000 + int (millis d)"

text \<open>\<^verbatim>\<open>probe.setHours(0, 0, 0, 0)\<close>.\<close>

definition setHours0 :: "jsdate \<Rightarrow> jsdate" where
  "setHours0 d = d\<lparr>hours := 0, minutes := 0, seconds := 0, millis := 0\<rparr>"

text \<open>
  \<^verbatim>\<open>d.setDate(d.getDate() + 1)\<close>: the same time of day on the next calendar day; a day
  past the end of the month rolls over into the next month, and past December into
  January of the next year.
\<close>

definition nextDay :: "jsdate \<Rightarrow> jsdate" where
  "nextDay d =
     (if mday d < daysInMonth (year d) (month d) then d\<lparr>mday := mday d + 1\<rparr>
      else if month d < 11 then d\<lparr>month := month d + 1, mday := 1\<rparr>
      else d\<lparr>year := year d + 1, month := 0, mday := 1\<rparr>)"

section \<open>Strings\<close>

text \<open>
  Strings are lists of characters. \<open>showInt\<close> is the decimal numeral of a number that
  is not negative, as a template literal prints it; \<open>showNat\<close> is the same for a
  natural number.
\<close>

definition digitChar :: "nat \<Rightarrow> char" where
  "digitChar n = ''0123456789'' ! n"

function showInt :: "int \<Rightarrow> string" where
  "showInt n =
     (if n < 10 then [digitChar (nat n)]
      else showInt (n div 10) @ [digitChar (nat (n mod 10))])"
  by pat_completeness auto
termination
  by (relation "measure nat") auto

declare showInt.simps [simp del]

definition showNat :: "nat \<Rightarrow> string" where
  "showNat n = showInt (int n)"

text \<open>\<^verbatim>\<open>s.padStart(2, '0')\<close>.\<close>

definition padStart2 :: "string \<Rightarrow> string" where
  "padStart2 s = replicate (2 - length s) (CHR ''0'') @ s"

text \<open>
  \<^verbatim>\<open>AdminCore.getBrazilDateString(date)\<close>: the empty string for a missing or invalid
  date, else year, month and day as \<^verbatim>\<open>YYYY-MM-DD\<close> (the formatter prints the year as a
  plain number and month and day with two digits).
\<close>

definition getBrazilDateString :: "jsdate option \<Rightarrow> string" where
  "getBrazilDateString date =
     (case date of
        None \<Rightarrow> ''''
      | Some d \<Rightarrow> showInt (year d) @ ''-'' @ padStart2 (showNat (month d + 1))
                  @ ''-'' @ padStart2 (showNat (mday d)))"

section \<open>Draw calendar\<close>

definition DEFAULT_CUTOFF_HOUR :: nat where
  "DEFAULT_CUTOFF_HOUR = 20"

definition EARLY_CUTOFF_HOUR :: nat where
  "EARLY_CUTOFF_HOUR = 16"

datatype ValidationStatus = VALID | INVALID | UNKNOWN | CUTOFF

text \<open>A thrown \<^verbatim>\<open>Error\<close>, with its message.\<close>

datatype error = Error string | TypeError string

definition isNoDrawDay :: "jsdate \<Rightarrow> bool" where
  "isNoDrawDay date =
     (if getDay date = 0 then True
      else if month date = 11 \<and> mday date = 25 then True
      else if month date = 0 \<and> mday date = 1 then True
      else False)"

definition isEarlyCutoffDay :: "jsdate \<Rightarrow> bool" where
  "isEarlyCutoffDay date = (month date = 11 \<and> (mday date = 24 \<or> mday date = 31))"

definition getCutoffHour :: "jsdate \<Rightarrow> nat" where
  "getCutoffHour date = (if isEarlyCutoffDay date then EARLY_CUTOFF_HOUR else DEFAULT_CUTOFF_HOUR)"

text \<open>
  The loop of \<^verbatim>\<open>getNextValidDrawDate\<close>, with the loop counter \<open>i\<close> and the probe as
  arguments. The test for a no-draw day is a parameter, so that the bound of the loop
  can be exercised; the program runs it with \<open>isNoDrawDay\<close>.
\<close>

function nextValidDrawDateLoop ::
    "(jsdate \<Rightarrow> bool) \<Rightarrow> nat \<Rightarrow> jsdate \<Rightarrow> error + jsdate" where
  "nextValidDrawDateLoop noDraw i probe =
     (if i < 14 then
        (let probe' = (if i > 0 then nextDay probe else probe)
         in if \<not> noDraw probe' then Inr probe'
            else nextValidDrawDateLoop noDraw (i + 1) probe')
      else Inl (Error ''No valid draw date found in range''))"
  by pat_completeness auto
termination
  by (relation "measure (\<lambda>(noDraw, i, probe). 14 - i)") auto

declare nextValidDrawDateLoop.simps [simp del]

definition nextValidDrawDateWith :: "(jsdate \<Rightarrow> bool) \<Rightarrow> jsdate \<Rightarrow> error + jsdate" where
  "nextValidDrawDateWith noDraw fromDate = nextValidDrawDateLoop noDraw 0 (setHours0 fromDate)"

definition getNextValidDrawDate :: "jsdate \<Rightarrow> error + jsdate" where
  "getNextValidDrawDate fromDate = nextValidDrawDateWith isNoDrawDay fromDate"

text \<open>The probe of the scan after \<open>k\<close> steps: midnight of the \<open>k\<close>-th day from \<open>fromDate\<close>.\<close>

definition dayFrom :: "jsdate \<Rightarrow> nat \<Rightarrow> jsdate" where
  "dayFrom fromDate k = (nextDay ^^ k) (setHours0 fromDate)"

text \<open>The two fixed holidays, as \<open>isNoDrawDay\<close> tests them.\<close>

definition isHoliday :: "jsdate \<Rightarrow> bool" where
  "isHoliday d = ((month d = 11 \<and> mday d = 25) \<or> (month d = 0 \<and> mday d = 1))"

text \<open>
  \<^verbatim>\<open>getEligibleDrawDate(registrationTime)\<close>. \<open>regDate\<close> is the midnight of the
  registration's calendar day: the program prints the day with \<open>getBrazilDateString\<close> and
  parses it back as \<^verbatim>\<open>YYYY-MM-DDT00:00:00-03:00\<close>, which returns the same day for the
  four-digit years that the sheet's timestamps can hold. \<open>Inr None\<close> is the returned
  \<^verbatim>\<open>null\<close>, \<open>Inl\<close> the error thrown by \<open>getNextValidDrawDate\<close>.
\<close>

definition getEligibleDrawDate :: "jsdate option \<Rightarrow> error + jsdate option" where
  "getEligibleDrawDate registrationTime =
     (case registrationTime of
        None \<Rightarrow> Inr None
      | Some rt \<Rightarrow>
          (let regDateStr = getBrazilDateString (Some rt)
           in if regDateStr = [] then Inr None
              else
                (let regDate = setHours0 rt;
                     regHour = hours rt;
                     cutoffHour = getCutoffHour regDate
                 in if \<not> isNoDrawDay regDate \<and> regHour < cutoffHour then Inr (Some regDate)
                    else
                      (case getNextValidDrawDate (nextDay regDate) of
                         Inl e \<Rightarrow> Inl e
                       | Inr d \<Rightarrow> Inr (Some d)))))"

section \<open>Records of the snapshot\<close>

text \<open>
  An entry (ticket) as \<^verbatim>\<open>parseEntryRow\<close> builds it; the raw timestamp and the
  WhatsApp number, which the validator and the calculator never read, are left out.
  A missing string field is the empty string (the program reads these fields through
  \<^verbatim>\<open>x || ''\<close> or \<^verbatim>\<open>!x\<close>); a missing number list is \<open>None\<close>.
\<close>

record entry =
  parsedDate :: "jsdate option"
  platform :: string
  gameId :: string
  numbers :: "int list option"
  drawDate :: string
  contest :: string
  ticketNumber :: string
  status :: string

text \<open>
  A recharge as \<^verbatim>\<open>parseRechargeRow\<close> builds it. The amount is only printed into the
  reason text; it is a whole number here, 0 when none was found.
\<close>

record recharge =
  rechargeGameId :: string
  rechargeId :: string
  rechargeTime :: "jsdate option"
  amount :: nat

text \<open>
  \<^verbatim>\<open>s.toUpperCase()\<close> on the letters a to z. Every other character is kept: the
  status and platform texts of the sheets are taken to be ASCII, apart from the one
  spelling with two more bytes that the status lists below hold.
\<close>

definition upperChar :: "char \<Rightarrow> char" where
  "upperChar c =
     (case map_of (zip ''abcdefghijklmnopqrstuvwxyz'' ''ABCDEFGHIJKLMNOPQRSTUVWXYZ'') c of
        Some u \<Rightarrow> u
      | None \<Rightarrow> c)"

definition toUpperCase :: "string \<Rightarrow> string" where
  "toUpperCase s = map upperChar s"

text \<open>
  \<^verbatim>\<open>s.split(/[\/\-]/)\<close>: the pieces between the separators; one piece, the whole
  string, when there is no separator.
\<close>

fun splitOn :: "(char \<Rightarrow> bool) \<Rightarrow> string \<Rightarrow> string list" where
  "splitOn sep [] = [[]]"
| "splitOn sep (c # cs) =
     (if sep c then [] # splitOn sep cs
      else (case splitOn sep cs of
              [] \<Rightarrow> [[c]]
            | w # ws \<Rightarrow> (c # w) # ws))"

definition isDateSeparator :: "char \<Rightarrow> bool" where
  "isDateSeparator c = (c = CHR ''/'' \<or> c = CHR ''-'')"

text \<open>
  The block of \<^verbatim>\<open>findMatchingRecharge\<close> that brings the ticket's draw date to
  \<^verbatim>\<open>YYYY-MM-DD\<close>: a date of three parts whose first part has four characters is taken
  as it is, any other date of three parts is read as day, month, year; everything else
  gives the empty string.
\<close>

definition normalizeDrawDate :: "string \<Rightarrow> string" where
  "normalizeDrawDate ticketDrawDate =
     (if ticketDrawDate = [] then []
      else
        (let parts = splitOn isDateSeparator ticketDrawDate
         in if length parts = 3 then
              (if length (parts ! 0) = 4 then ticketDrawDate
               else (parts ! 2) @ ''-'' @ padStart2 (parts ! 1) @ ''-'' @ padStart2 (parts ! 0))
            else []))"

section \<open>Recharge matching\<close>

text \<open>\<^verbatim>\<open>r.rechargeTime.getTime()\<close> of a recharge that passed the filter on valid times.\<close>

definition rechargeMillis :: "recharge \<Rightarrow> int" where
  "rechargeMillis r = (case rechargeTime r of None \<Rightarrow> 0 | Some t \<Rightarrow> getTime t)"

text \<open>The filter that keeps the recharges made strictly before the ticket.\<close>

definition isEligibleRecharge :: "int \<Rightarrow> recharge \<Rightarrow> bool" where
  "isEligibleRecharge ticketTime r =
     (case rechargeTime r of None \<Rightarrow> False | Some t \<Rightarrow> getTime t < ticketTime)"

text \<open>
  The filter for \<open>priorTickets\<close>: other tickets registered strictly between the recharge
  and this ticket.
\<close>

definition isPriorTicket :: "entry \<Rightarrow> int \<Rightarrow> recharge \<Rightarrow> entry \<Rightarrow> bool" where
  "isPriorTicket ticket ticketTime rch t =
     (ticketNumber t \<noteq> ticketNumber ticket \<and>
      (case parsedDate t of
         None \<Rightarrow> False
       | Some p \<Rightarrow> getTime p < ticketTime \<and> getTime p > rechargeMillis rch))"

text \<open>The inner loop: does a prior ticket map to the recharge's draw day?\<close>

fun rechargeUsedLoop :: "string \<Rightarrow> entry list \<Rightarrow> error + bool" where
  "rechargeUsedLoop eligibleDrawStr [] = Inr False"
| "rechargeUsedLoop eligibleDrawStr (prior # rest) =
     (case getEligibleDrawDate (parsedDate prior) of
        Inl e \<Rightarrow> Inl e
      | Inr None \<Rightarrow> rechargeUsedLoop eligibleDrawStr rest
      | Inr (Some priorEligibleDraw) \<Rightarrow>
          (if getBrazilDateString (Some priorEligibleDraw) = eligibleDrawStr then Inr True
           else rechargeUsedLoop eligibleDrawStr rest))"

text \<open>The loop over the eligible recharges, most recent first.\<close>

fun matchLoop :: "entry \<Rightarrow> int \<Rightarrow> entry list \<Rightarrow> recharge list \<Rightarrow> error + recharge option" where
  "matchLoop ticket ticketTime allTickets [] = Inr None"
| "matchLoop ticket ticketTime allTickets (rch # rest) =
     (case getEligibleDrawDate (rechargeTime rch) of
        Inl e \<Rightarrow> Inl e
      | Inr None \<Rightarrow> matchLoop ticket ticketTime allTickets rest
      | Inr (Some eligibleDraw) \<Rightarrow>
          (let eligibleDrawStr = getBrazilDateString (Some eligibleDraw)
           in if eligibleDrawStr = [] then matchLoop ticket ticketTime allTickets rest
              else if normalizeDrawDate (drawDate ticket) \<noteq> eligibleDrawStr
                then matchLoop ticket ticketTime allTickets rest
              else
                (let priorTickets = filter (isPriorTicket ticket ticketTime rch) allTickets
                 in if priorTickets = [] then Inr (Some rch)
                    else
                      (case rechargeUsedLoop eligibleDrawStr priorTickets of
                         Inl e \<Rightarrow> Inl e
                       | Inr rechargeUsed \<Rightarrow>
                           (if \<not> rechargeUsed then Inr (Some rch)
                            else matchLoop ticket ticketTime allTickets rest)))))"

text \<open>
  \<^verbatim>\<open>findMatchingRecharge(ticket, recharges, allTickets)\<close>. The sort is the stable sort of
  \<^verbatim>\<open>Array.prototype.sort\<close> by recharge time, latest first.
\<close>

definition findMatchingRecharge :: "entry \<Rightarrow> recharge list \<Rightarrow> entry list \<Rightarrow> error + recharge option" where
  "findMatchingRecharge ticket recharges allTickets =
     (case parsedDate ticket of
        None \<Rightarrow> Inr None
      | Some pd \<Rightarrow>
          (if recharges = [] then Inr None
           else
             (let ticketTime = getTime pd;
                  eligibleRecharges = filter (isEligibleRecharge ticketTime) recharges
              in if eligibleRecharges = [] then Inr None
                 else matchLoop ticket ticketTime allTickets
                        (sort_key (\<lambda>r. - rechargeMillis r) eligibleRecharges))))"

section \<open>Ticket validation\<close>

text \<open>The result object of \<^verbatim>\<open>validateTicket\<close>.\<close>

record validation =
  vticket :: entry
  vstatus :: ValidationStatus
  reason :: string
  matchedRecharge :: "recharge option"
  isCutoff :: bool

text \<open>
  The status lists of \<^verbatim>\<open>validateTicket\<close>. The second spelling of the invalid list is
  written in the source file with the two bytes C3 83 after \<^verbatim>\<open>INV\<close>.
\<close>

definition preValidStatuses :: "string list" where
  "preValidStatuses = [''VALID'', ''VALIDADO'', ''VALIDATED'']"

definition preInvalidStatuses :: "string list" where
  "preInvalidStatuses = [''INVALID'', ''INV'' @ [CHR 0xC3, CHR 0x83] @ ''LIDO'']"

text \<open>
  \<^verbatim>\<open>new Date(`${dateStr}T12:00:00-03:00`)\<close> for the date string of \<open>d\<close>: noon of the
  same calendar day.
\<close>

definition noonOf :: "jsdate \<Rightarrow> jsdate" where
  "noonOf d = d\<lparr>hours := 12, minutes := 0, seconds := 0, millis := 0\<rparr>"

text \<open>The cutoff block of \<^verbatim>\<open>validateTicket\<close>: the value of \<open>result.isCutoff\<close> after it.\<close>

definition cutoffCheck :: "entry \<Rightarrow> bool" where
  "cutoffCheck ticket =
     (case parsedDate ticket of
        None \<Rightarrow> False
      | Some pd \<Rightarrow>
          (let regHour = hours pd;
               regMinute = minutes pd;
               dateStr = getBrazilDateString (Some pd)
           in if dateStr \<noteq> [] then
                (let checkDate = noonOf pd;
                     cutoffHour = getCutoffHour checkDate
                 in regHour \<ge> cutoffHour \<or> (regHour = cutoffHour - 1 \<and> regMinute > 59))
              else False))"

text \<open>\<^verbatim>\<open>`Matched recharge R$${matchedRecharge.amount || '?'}`\<close>.\<close>

definition matchedReason :: "recharge \<Rightarrow> string" where
  "matchedReason r =
     ''Matched recharge R$'' @ (if amount r = 0 then ''?'' else showNat (amount r))"

text \<open>
  \<^verbatim>\<open>validateTicket(ticket, rechargesByGameId, ticketsByGameId)\<close>, with the matcher it
  calls as a parameter: the program passes \<open>findMatchingRecharge\<close>. The two lookup
  objects are maps from game id to the list stored under it, the properties of the
  objects themselves: \<^verbatim>\<open>validateAllTickets\<close> passes the objects it has built, and it
  gets that far only when no game id names a member of \<^verbatim>\<open>Object.prototype\<close>.
\<close>

definition validateTicketWith ::
    "(entry \<Rightarrow> recharge list \<Rightarrow> entry list \<Rightarrow> error + recharge option) \<Rightarrow>
     entry \<Rightarrow> (string \<rightharpoonup> recharge list) \<Rightarrow> (string \<rightharpoonup> entry list) \<Rightarrow> error + validation" where
  "validateTicketWith matcher ticket rechargesByGameId ticketsByGameId =
     (let result = \<lparr>vticket = ticket, vstatus = UNKNOWN, reason = [],
                     matchedRecharge = None, isCutoff = False\<rparr>;
          existingStatus = toUpperCase (status ticket)
      in if existingStatus \<in> set preValidStatuses then
           Inr (result\<lparr>vstatus := VALID, reason := ''Pre-validated in source data''\<rparr>)
         else if existingStatus \<in> set preInvalidStatuses then
           Inr (result\<lparr>vstatus := INVALID, reason := ''Marked invalid in source data''\<rparr>)
         else if gameId ticket = [] then
           Inr (result\<lparr>vstatus := INVALID, reason := ''Missing Game ID''\<rparr>)
         else
           (let recharges = (case rechargesByGameId (gameId ticket) of None \<Rightarrow> [] | Some rs \<Rightarrow> rs);
                tickets = (case ticketsByGameId (gameId ticket) of None \<Rightarrow> [] | Some ts \<Rightarrow> ts)
            in if recharges = [] then
                 Inr (result\<lparr>vstatus := INVALID,
                        reason := ''No recharge found for Game ID: '' @ gameId ticket\<rparr>)
               else
                 (let result1 = result\<lparr>isCutoff := cutoffCheck ticket\<rparr>
                  in case matcher ticket recharges tickets of
                       Inl e \<Rightarrow> Inl e
                     | Inr (Some matched) \<Rightarrow>
                         Inr (result1\<lparr>vstatus := VALID, reason := matchedReason matched,
                                matchedRecharge := Some matched\<rparr>)
                     | Inr None \<Rightarrow>
                         Inr (result1\<lparr>vstatus := INVALID,
                                reason := ''Recharge exists but timing does not match draw window''\<rparr>))))"

definition validateTicket ::
    "entry \<Rightarrow> (string \<rightharpoonup> recharge list) \<Rightarrow> (string \<rightharpoonup> entry list) \<Rightarrow> error + validation" where
  "validateTicket = validateTicketWith findMatchingRecharge"

text \<open>
  The lookup objects of the program are plain objects. Where such an object has no
  property of its own under a key, a key that names a member of
  \<^verbatim>\<open>Object.prototype\<close> finds that member. These are the members a browser gives
  \<^verbatim>\<open>Object.prototype\<close>: each is a function or, under \<^verbatim>\<open>__proto__\<close>, the prototype
  object itself, so each is truthy, is not an array and has neither \<^verbatim>\<open>push\<close> nor
  \<^verbatim>\<open>forEach\<close>.
\<close>

definition objectPrototypeKeys :: "string list" where
  "objectPrototypeKeys =
     [''constructor'', ''__defineGetter__'', ''__defineSetter__'', ''hasOwnProperty'',
      ''__lookupGetter__'', ''__lookupSetter__'', ''isPrototypeOf'', ''propertyIsEnumerable'',
      ''toString'', ''valueOf'', ''__proto__'', ''toLocaleString'']"

text \<open>
  The body of the two grouping loops of \<^verbatim>\<open>validateAllTickets\<close>: a record without
  game id is skipped; for any other, a list is created under its game id when the
  object answers nothing for it, and the record is pushed onto what the object
  answers. Under a game id that names a member of \<^verbatim>\<open>Object.prototype\<close> the object
  answers with that member, no list is created, and \<^verbatim>\<open>push\<close> is not a function. The
  map holds the properties of the object itself.
\<close>

definition pushByKey ::
    "('a \<Rightarrow> string) \<Rightarrow> (string \<rightharpoonup> 'a list) \<Rightarrow> 'a \<Rightarrow> error + (string \<rightharpoonup> 'a list)" where
  "pushByKey key m x =
     (if key x = [] then Inr m
      else
        (case m (key x) of
           Some xs \<Rightarrow> Inr (m(key x \<mapsto> xs @ [x]))
         | None \<Rightarrow>
             (if key x \<in> set objectPrototypeKeys then Inl (TypeError ''push is not a function'')
              else Inr (m(key x \<mapsto> [x])))))"

text \<open>\<^verbatim>\<open>forEach\<close> over the records, from the object built so far; a throw ends it.\<close>

fun groupByKeyFrom ::
    "('a \<Rightarrow> string) \<Rightarrow> (string \<rightharpoonup> 'a list) \<Rightarrow> 'a list \<Rightarrow> error + (string \<rightharpoonup> 'a list)" where
  "groupByKeyFrom key m [] = Inr m"
| "groupByKeyFrom key m (x # xs) =
     (case pushByKey key m x of
        Inl err \<Rightarrow> Inl err
      | Inr m' \<Rightarrow> groupByKeyFrom key m' xs)"

definition groupByKey :: "('a \<Rightarrow> string) \<Rightarrow> 'a list \<Rightarrow> error + (string \<rightharpoonup> 'a list)" where
  "groupByKey key xs = groupByKeyFrom key Map.empty xs"

record validationStats =
  total :: nat
  valid :: nat
  invalid :: nat
  unknown :: nat
  cutoff :: nat

record validationResults =
  results :: "validation list"
  stats :: validationStats
  rechargeCount :: nat

text \<open>The \<^verbatim>\<open>switch\<close> on the status and the cutoff counter, for one validated ticket.\<close>

definition countValidation :: "validation \<Rightarrow> validationStats \<Rightarrow> validationStats" where
  "countValidation v st =
     (let st1 = (case vstatus v of
                   VALID \<Rightarrow> st\<lparr>valid := valid st + 1\<rparr>
                 | INVALID \<Rightarrow> st\<lparr>invalid := invalid st + 1\<rparr>
                 | _ \<Rightarrow> st\<lparr>unknown := unknown st + 1\<rparr>)
      in if isCutoff v then st1\<lparr>cutoff := cutoff st1 + 1\<rparr> else st1)"

text \<open>The inner loop over one batch; a throw of \<open>validateTicket\<close> ends the run.\<close>

fun validateBatch ::
    "(string \<rightharpoonup> recharge list) \<Rightarrow> (string \<rightharpoonup> entry list) \<Rightarrow> entry list \<Rightarrow>
     validation list \<times> validationStats \<Rightarrow> error + validation list \<times> validationStats" where
  "validateBatch rechargesByGameId ticketsByGameId [] acc = Inr acc"
| "validateBatch rechargesByGameId ticketsByGameId (e # batch) acc =
     (case validateTicket e rechargesByGameId ticketsByGameId of
        Inl err \<Rightarrow> Inl err
      | Inr v \<Rightarrow>
          validateBatch rechargesByGameId ticketsByGameId batch
            (fst acc @ [v], countValidation v (snd acc)))"

definition validationBatchSize :: nat where
  "validationBatchSize = 50"

text \<open>
  The outer loop, \<^verbatim>\<open>for (let i = 0; i < entries.length; i += batchSize)\<close>, over the
  slices \<^verbatim>\<open>entries.slice(i, i + batchSize)\<close>. The pause between two batches changes
  no value of the computation and has no counterpart here.
\<close>

function validateBatches ::
    "(string \<rightharpoonup> recharge list) \<Rightarrow> (string \<rightharpoonup> entry list) \<Rightarrow> entry list \<Rightarrow> nat \<Rightarrow>
     validation list \<times> validationStats \<Rightarrow> error + validation list \<times> validationStats" where
  "validateBatches rechargesByGameId ticketsByGameId entries i acc =
     (if i < length entries then
        (case validateBatch rechargesByGameId ticketsByGameId
                (take validationBatchSize (drop i entries)) acc of
           Inl err \<Rightarrow> Inl err
         | Inr acc' \<Rightarrow>
             validateBatches rechargesByGameId ticketsByGameId entries (i + validationBatchSize) acc')
      else Inr acc)"
  by pat_completeness auto
termination
  by (relation "measure (\<lambda>(rm, tm, entries, i, acc). length entries - i)")
     (auto simp: validationBatchSize_def)

declare validateBatches.simps [simp del]

text \<open>The part of \<^verbatim>\<open>validateAllTickets\<close> after the look into the cache.\<close>

definition computeValidation :: "entry list \<Rightarrow> recharge list \<Rightarrow> error + validationResults" where
  "computeValidation entries recharges =
     (case groupByKey rechargeGameId recharges of
        Inl err \<Rightarrow> Inl err
      | Inr rechargesByGameId \<Rightarrow>
          (case groupByKey gameId entries of
             Inl err \<Rightarrow> Inl err
           | Inr ticketsByGameId \<Rightarrow>
               (let stats0 = \<lparr>total = length entries, valid = 0, invalid = 0, unknown = 0,
                               cutoff = 0\<rparr>
                in case validateBatches rechargesByGameId ticketsByGameId entries 0 ([], stats0) of
                     Inl err \<Rightarrow> Inl err
                   | Inr acc \<Rightarrow>
                       Inr \<lparr>results = fst acc, stats = snd acc,
                             rechargeCount = length recharges\<rparr>)))"

section \<open>Winner calculation\<close>

definition DEFAULT_PRIZE_POOL :: rat where
  "DEFAULT_PRIZE_POOL = 1000"

definition MIN_MATCHES_TO_WIN :: nat where
  "MIN_MATCHES_TO_WIN = 3"

text \<open>
  \<^verbatim>\<open>AdminCore.PLATFORM_PRIZES\<close> and \<^verbatim>\<open>getPlatformPrize\<close>. Amounts of money are
  rational numbers; \<open>/\<close> is the exact quotient. The table is a plain object as well. The
  platform codes of the program are \<^verbatim>\<open>ALL\<close>, \<^verbatim>\<open>POPN1\<close> and \<^verbatim>\<open>POPLUZ\<close>
  (\<^verbatim>\<open>setCurrentPlatform\<close> admits no other) and \<^verbatim>\<open>DEFAULT\<close>, which stands for
  \<^verbatim>\<open>ALL\<close> here; a platform code is taken not to name a member of
  \<^verbatim>\<open>Object.prototype\<close>, so that the table answers with a number or not at all.
\<close>

definition PLATFORM_PRIZES :: "(string \<times> rat) list" where
  "PLATFORM_PRIZES = [(''POPN1'', 1000), (''POPLUZ'', 1000), (''DEFAULT'', 1000)]"

definition getPlatformPrize :: "string \<Rightarrow> rat" where
  "getPlatformPrize p =
     (case map_of PLATFORM_PRIZES p of
        Some v \<Rightarrow> (if v \<noteq> 0 then v else the (map_of PLATFORM_PRIZES ''DEFAULT''))
      | None \<Rightarrow> the (map_of PLATFORM_PRIZES ''DEFAULT''))"

text \<open>\<^verbatim>\<open>getPrizePool\<close>: \<^verbatim>\<open>AdminCore\<close> is loaded, so its table answers.\<close>

definition getPrizePool :: "string \<Rightarrow> rat" where
  "getPrizePool p = getPlatformPrize p"

definition INVALID_STATUSES :: "string list" where
  "INVALID_STATUSES =
     [''INVALID'', ''INV'' @ [CHR 0xC3, CHR 0x83] @ ''LIDO'',
      ''REJECTED'', ''CANCELLED'']"

text \<open>\<^verbatim>\<open>PRIZE_TIERS\<close>, without the emoji of each tier.\<close>

record prizeTier =
  tierName :: string
  tierLabel :: string
  tierIsWinner :: bool

definition PRIZE_TIERS :: "(nat \<times> prizeTier) list" where
  "PRIZE_TIERS =
     [(5, \<lparr>tierName = ''Jackpot'', tierLabel = ''5 matches'', tierIsWinner = True\<rparr>),
      (4, \<lparr>tierName = ''2nd Prize'', tierLabel = ''4 matches'', tierIsWinner = True\<rparr>),
      (3, \<lparr>tierName = ''3rd Prize'', tierLabel = ''3 matches'', tierIsWinner = True\<rparr>),
      (2, \<lparr>tierName = ''No Prize'', tierLabel = ''2 matches'', tierIsWinner = False\<rparr>),
      (1, \<lparr>tierName = ''No Prize'', tierLabel = ''1 match'', tierIsWinner = False\<rparr>)]"

text \<open>
  \<^verbatim>\<open>countMatches\<close>: the entry's numbers that are winning numbers, in the entry's order
  and with its repetitions, counted, and then sorted upwards.
\<close>

definition countMatches :: "int list \<Rightarrow> int list \<Rightarrow> nat \<times> int list" where
  "countMatches entryNumbers winningNumbers =
     (let matched = filter (\<lambda>n. n \<in> set winningNumbers) entryNumbers
      in (length matched, sort matched))"

definition isValidEntry :: "entry \<Rightarrow> bool" where
  "isValidEntry e = (toUpperCase (status e) \<notin> set INVALID_STATUSES)"

text \<open>A result row of the results sheet, as \<^verbatim>\<open>parseResultRow\<close> builds it.\<close>

record drawResult =
  resultContest :: string
  resultDrawDate :: string
  resultNumbers :: "int list"
  isNoDraw :: bool

text \<open>
  A scored entry, \<^verbatim>\<open>{...entry, matches, matchedNumbers, isValidEntry}\<close>; the field
  \<^verbatim>\<open>isValidEntry\<close> is \<open>winnerIsValid\<close>.
\<close>

record winner =
  winnerEntry :: entry
  matches :: nat
  matchedNumbers :: "int list"
  winnerIsValid :: bool

text \<open>
  The object \<^verbatim>\<open>calculateContestWinners\<close> returns. \<open>byTier\<close> is a map from the tier
  to its bucket: five keys for a contest with a result, none without. The three
  fields that only the second \<^verbatim>\<open>return\<close> sets are options. \<open>totalEntries\<close> is
  \<^verbatim>\<open>entries.length\<close>: the length of the array of entries, and \<open>None\<close> for
  \<^verbatim>\<open>undefined\<close>, which a value that is no array may give.
\<close>

record contestWinners =
  cwContest :: string
  cwDrawDate :: string
  winningNumbers :: "int list"
  hasResult :: bool
  totalEntries :: "nat option"
  validEntries :: "nat option"
  winners :: "winner list"
  byTier :: "nat \<rightharpoonup> winner list"
  winningTier :: nat
  prizePerWinner :: rat
  prizePool :: rat
  totalPrizeAwarded :: "rat option"
  tierInfo :: "prizeTier option"
  cwPlatform :: string

text \<open>\<^verbatim>\<open>a || b\<close> on strings that may be missing: the first one that is not empty.\<close>

definition orElse :: "string \<Rightarrow> string \<Rightarrow> string" where
  "orElse a b = (if a \<noteq> [] then a else b)"

definition emptyTiers :: "nat \<rightharpoonup> winner list" where
  "emptyTiers = [5 \<mapsto> [], 4 \<mapsto> [], 3 \<mapsto> [], 2 \<mapsto> [], 1 \<mapsto> []]"

text \<open>
  The body of \<^verbatim>\<open>entries.forEach\<close>: the state is the pair of \<open>winners\<close> and
  \<open>byTier\<close>.
\<close>

definition scoreEntry ::
    "int list \<Rightarrow> winner list \<times> (nat \<rightharpoonup> winner list) \<Rightarrow> entry \<Rightarrow> winner list \<times> (nat \<rightharpoonup> winner list)" where
  "scoreEntry winning acc e =
     (case numbers e of
        None \<Rightarrow> acc
      | Some ns \<Rightarrow>
          (if ns = [] then acc
           else
             (let matchResult = countMatches ns winning
              in if fst matchResult > 0 then
                   (let w = \<lparr>winnerEntry = e, matches = fst matchResult,
                              matchedNumbers = snd matchResult, winnerIsValid = isValidEntry e\<rparr>;
                        tiers = (case snd acc (fst matchResult) of
                                   Some bucket \<Rightarrow> (snd acc)(fst matchResult \<mapsto> bucket @ [w])
                                 | None \<Rightarrow> snd acc);
                        ws = (if winnerIsValid w \<and> fst matchResult \<ge> MIN_MATCHES_TO_WIN
                              then fst acc @ [w] else fst acc)
                    in (ws, tiers))
                 else acc)))"

text \<open>\<^verbatim>\<open>byTier[tier].filter(w => w.isValidEntry)\<close>, for a tier that has a bucket.\<close>

definition validInTier :: "(nat \<rightharpoonup> winner list) \<Rightarrow> nat \<Rightarrow> winner list" where
  "validInTier tiers tier =
     filter winnerIsValid (case tiers tier of None \<Rightarrow> [] | Some bucket \<Rightarrow> bucket)"

text \<open>
  The loop \<^verbatim>\<open>for (let tier = 5; tier >= MIN_MATCHES_TO_WIN; tier--)\<close>, from \<open>tier\<close>
  downwards.
\<close>

function winningTierFrom :: "(nat \<rightharpoonup> winner list) \<Rightarrow> nat \<Rightarrow> nat" where
  "winningTierFrom tiers tier =
     (if tier \<ge> MIN_MATCHES_TO_WIN then
        (if validInTier tiers tier \<noteq> [] then tier else winningTierFrom tiers (tier - 1))
      else 0)"
  by pat_completeness auto
termination
  by (relation "measure (\<lambda>(tiers, tier). tier)") (auto simp: MIN_MATCHES_TO_WIN_def)

declare winningTierFrom.simps [simp del]

definition calculateContestWinners ::
    "entry list \<Rightarrow> drawResult option \<Rightarrow> string \<Rightarrow> string option \<Rightarrow> contestWinners" where
  "calculateContestWinners entries result pf contestId =
     (let contestName =
            orElse (case result of None \<Rightarrow> [] | Some r \<Rightarrow> resultContest r)
              (orElse (case contestId of None \<Rightarrow> [] | Some c \<Rightarrow> c)
                 (orElse (case entries of [] \<Rightarrow> [] | e # _ \<Rightarrow> contest e) ''Unknown''));
          drawDateStr = (case result of None \<Rightarrow> [] | Some r \<Rightarrow> resultDrawDate r);
          zero = \<lparr>cwContest = contestName, cwDrawDate = drawDateStr, winningNumbers = [],
                  hasResult = False, totalEntries = Some (length entries), validEntries = None,
                  winners = [], byTier = Map.empty, winningTier = 0, prizePerWinner = 0,
                  prizePool = getPrizePool pf, totalPrizeAwarded = None, tierInfo = None,
                  cwPlatform = pf\<rparr>
      in case result of
           None \<Rightarrow> zero
         | Some r \<Rightarrow>
             (if isNoDraw r \<or> length (resultNumbers r) \<noteq> 5 then zero
              else
                (let winning = resultNumbers r;
                     pool = getPrizePool pf;
                     scored = foldl (scoreEntry winning) ([], emptyTiers) entries;
                     sortedWinners = sort_key (\<lambda>w. - int (matches w)) (fst scored);
                     tiers = snd scored;
                     tier = winningTierFrom tiers 5;
                     tierWinners = validInTier tiers tier;
                     paid = (tier > 0 \<and> tierWinners \<noteq> [])
                 in \<lparr>cwContest = contestName, cwDrawDate = drawDateStr,
                      winningNumbers = winning, hasResult = True,
                      totalEntries = Some (length entries),
                      validEntries = Some (length (filter isValidEntry entries)),
                      winners = sortedWinners, byTier = tiers, winningTier = tier,
                      prizePerWinner = (if paid then pool / of_nat (length tierWinners) else 0),
                      prizePool = pool,
                      totalPrizeAwarded = Some (if paid then pool else 0),
                      tierInfo = map_of PRIZE_TIERS tier, cwPlatform = pf\<rparr>)))"

section \<open>Campaign aggregation\<close>

text \<open>\<^verbatim>\<open>DataStore.filterByPlatform\<close>.\<close>

definition filterByPlatform :: "entry list \<Rightarrow> string \<Rightarrow> entry list" where
  "filterByPlatform entries pf =
     (if pf = [] \<or> pf = ''ALL'' then entries
      else filter (\<lambda>e. toUpperCase (orElse (platform e) ''POPN1'') = toUpperCase pf) entries)"

text \<open>
  \<^verbatim>\<open>DataFetcher.groupEntriesByContest\<close>. The object it builds is the list of its
  properties in the order of their creation; \<open>objectKeys\<close> gives them in the order of
  \<^verbatim>\<open>Object.keys\<close>: the keys that are array indices (decimal numerals without leading
  zero, below \<open>2^32 - 1\<close>) in ascending order, then the other keys as created. As in
  the grouping by game id, a contest that names a member of \<^verbatim>\<open>Object.prototype\<close>
  gets no list, and the \<^verbatim>\<open>push\<close> throws.
\<close>

fun groupInsert :: "string \<Rightarrow> entry \<Rightarrow> (string \<times> entry list) list \<Rightarrow> (string \<times> entry list) list" where
  "groupInsert k e [] = [(k, [e])]"
| "groupInsert k e ((k', es) # rest) =
     (if k' = k then (k', es @ [e]) # rest else (k', es) # groupInsert k e rest)"

definition groupPush :: "(string \<times> entry list) list \<Rightarrow> entry \<Rightarrow> error + (string \<times> entry list) list" where
  "groupPush grouped e =
     (let c = orElse (contest e) ''Unknown''
      in case map_of grouped c of
           Some es \<Rightarrow> Inr (groupInsert c e grouped)
         | None \<Rightarrow>
             (if c \<in> set objectPrototypeKeys then Inl (TypeError ''push is not a function'')
              else Inr (groupInsert c e grouped)))"

fun groupEntriesFrom ::
    "(string \<times> entry list) list \<Rightarrow> entry list \<Rightarrow> error + (string \<times> entry list) list" where
  "groupEntriesFrom grouped [] = Inr grouped"
| "groupEntriesFrom grouped (e # es) =
     (case groupPush grouped e of
        Inl err \<Rightarrow> Inl err
      | Inr grouped' \<Rightarrow> groupEntriesFrom grouped' es)"

definition groupEntriesByContest :: "entry list \<Rightarrow> error + (string \<times> entry list) list" where
  "groupEntriesByContest entries = groupEntriesFrom [] entries"

definition isDigit :: "char \<Rightarrow> bool" where
  "isDigit c = (c \<in> set ''0123456789'')"

definition digitValue :: "char \<Rightarrow> int" where
  "digitValue c =
     (case map_of (zip ''0123456789'' [0, 1, 2, 3, 4, 5, 6, 7, 8, 9]) c of
        Some v \<Rightarrow> v
      | None \<Rightarrow> 0)"

definition parseNat :: "string \<Rightarrow> int" where
  "parseNat s = foldl (\<lambda>a c. 10 * a + digitValue c) 0 s"

definition isArrayIndex :: "string \<Rightarrow> bool" where
  "isArrayIndex s =
     (s \<noteq> [] \<and> list_all isDigit s \<and> (s = ''0'' \<or> hd s \<noteq> CHR ''0'') \<and> parseNat s < 4294967295)"

definition objectKeys :: "(string \<times> 'a) list \<Rightarrow> string list" where
  "objectKeys props =
     sort_key parseNat (filter isArrayIndex (map fst props))
       @ filter (\<lambda>k. \<not> isArrayIndex k) (map fst props)"

text \<open>
  \<^verbatim>\<open>parseInt(s, 10) || 0\<close>: blanks, a sign and the digits that follow; 0 when there
  is no digit.
\<close>

definition isBlank :: "char \<Rightarrow> bool" where
  "isBlank c = (c \<in> set [CHR 0x20, CHR 0x09, CHR 0x0A, CHR 0x0B, CHR 0x0C, CHR 0x0D])"

definition parseIntOr0 :: "string \<Rightarrow> int" where
  "parseIntOr0 s =
     (let t = dropWhile isBlank s;
          neg = (t \<noteq> [] \<and> hd t = CHR ''-'');
          u = (if t \<noteq> [] \<and> (hd t = CHR ''-'' \<or> hd t = CHR ''+'') then tl t else t);
          ds = takeWhile isDigit u
      in if neg then - parseNat ds else parseNat ds)"

text \<open>The \<^verbatim>\<open>Map\<close> of results by contest and the \<^verbatim>\<open>Set\<close> of contest ids, in insertion order.\<close>

definition resultsMapOf :: "drawResult list \<Rightarrow> (string \<rightharpoonup> drawResult)" where
  "resultsMapOf rs =
     foldl (\<lambda>m r. if resultContest r \<noteq> [] then m(resultContest r \<mapsto> r) else m) Map.empty rs"

definition setAdd :: "string list \<Rightarrow> string \<Rightarrow> string list" where
  "setAdd ids x = (if x \<in> set ids then ids else ids @ [x])"

definition allContestIdsOf :: "drawResult list \<Rightarrow> (string \<times> entry list) list \<Rightarrow> string list" where
  "allContestIdsOf rs entriesByContest =
     foldl setAdd
       (foldl (\<lambda>ids r. if resultContest r \<noteq> [] then setAdd ids (resultContest r) else ids) [] rs)
       (objectKeys entriesByContest)"

record winnerStats =
  totalContests :: nat
  contestsWithWinners :: nat
  statsByTier :: "nat \<rightharpoonup> nat"
  totalWinners :: nat
  statsTotalPrizeAwarded :: rat
  statsPlatform :: string
  statsPrizePool :: rat

record winnersResult =
  contestResults :: "contestWinners list"
  allWinners :: "winner list"
  winnersStats :: winnerStats
  resultPlatform :: string

text \<open>The loop \<^verbatim>\<open>for (let tier = 5; tier >= 1; tier--)\<close> that counts the valid entries of each bucket.\<close>

definition countTiers :: "contestWinners \<Rightarrow> (nat \<rightharpoonup> nat) \<Rightarrow> (nat \<rightharpoonup> nat)" where
  "countTiers cw counts =
     foldl (\<lambda>m tier. m(tier \<mapsto> (case m tier of None \<Rightarrow> 0 | Some n \<Rightarrow> n)
                                  + length (validInTier (byTier cw) tier)))
       counts [5, 4, 3, 2, 1]"

text \<open>
  The \<^verbatim>\<open>length\<close> of the members of \<^verbatim>\<open>Object.prototype\<close>: the number of parameters
  of a function; the prototype object, under \<^verbatim>\<open>__proto__\<close>, has none.
\<close>

definition prototypeMemberLength :: "string \<Rightarrow> nat option" where
  "prototypeMemberLength k =
     map_of [(''constructor'', 1), (''__defineGetter__'', 2), (''__defineSetter__'', 2),
             (''hasOwnProperty'', 1), (''__lookupGetter__'', 1), (''__lookupSetter__'', 1),
             (''isPrototypeOf'', 1), (''propertyIsEnumerable'', 1), (''toString'', 0),
             (''valueOf'', 0), (''toLocaleString'', 0)] k"

text \<open>
  \<^verbatim>\<open>calculateContestWinners\<close> when its first argument is a member of
  \<^verbatim>\<open>Object.prototype\<close> instead of an array: \<^verbatim>\<open>entries[0]\<close> is \<^verbatim>\<open>undefined\<close> as for the
  empty array, the first \<^verbatim>\<open>return\<close> gives the zero-value object with the
  \<^verbatim>\<open>length\<close> of the member, and past it \<^verbatim>\<open>entries.forEach\<close> is not a function.
\<close>

definition calculateContestWinnersOfMember ::
    "string \<Rightarrow> drawResult option \<Rightarrow> string \<Rightarrow> string option \<Rightarrow> error + contestWinners" where
  "calculateContestWinnersOfMember member result pf contestId =
     (let zero = (calculateContestWinners [] result pf contestId)
                   \<lparr>totalEntries := prototypeMemberLength member\<rparr>
      in case result of
           None \<Rightarrow> Inr zero
         | Some r \<Rightarrow>
             (if isNoDraw r \<or> length (resultNumbers r) \<noteq> 5 then Inr zero
              else Inl (TypeError ''entries.forEach is not a function'')))"

text \<open>
  The first three lines of the loop over one contest:
  \<^verbatim>\<open>entriesByContest[contest] || []\<close> is the list of the contest, the member of
  \<^verbatim>\<open>Object.prototype\<close> that a contest without list may name, or the empty array.
\<close>

definition contestWinnersOf ::
    "(string \<times> entry list) list \<Rightarrow> (string \<rightharpoonup> drawResult) \<Rightarrow> string \<Rightarrow> string \<Rightarrow>
     error + contestWinners" where
  "contestWinnersOf entriesByContest resultsMap effectivePlatform c =
     (case map_of entriesByContest c of
        Some contestEntries \<Rightarrow>
          Inr (calculateContestWinners contestEntries (resultsMap c) effectivePlatform (Some c))
      | None \<Rightarrow>
          (if c \<in> set objectPrototypeKeys then
             calculateContestWinnersOfMember c (resultsMap c) effectivePlatform (Some c)
           else Inr (calculateContestWinners [] (resultsMap c) effectivePlatform (Some c))))"

text \<open>
  The rest of the body of the loop over one contest: the state is \<open>contestResults\<close>,
  \<open>allWinners\<close> and \<open>stats\<close>.
\<close>

definition recordContest ::
    "rat \<Rightarrow> contestWinners list \<times> winner list \<times> winnerStats \<Rightarrow> contestWinners \<Rightarrow>
     contestWinners list \<times> winner list \<times> winnerStats" where
  "recordContest pool acc cw =
     (let st = snd (snd acc)
      in if hasResult cw then
           (let st1 = st\<lparr>totalContests := totalContests st + 1\<rparr>;
                st2 = (if winningTier cw > 0 then
                         st1\<lparr>contestsWithWinners := contestsWithWinners st1 + 1,
                             statsTotalPrizeAwarded := statsTotalPrizeAwarded st1
                               + (case totalPrizeAwarded cw of
                                    None \<Rightarrow> pool
                                  | Some a \<Rightarrow> (if a \<noteq> 0 then a else pool))\<rparr>
                       else st1);
                st3 = st2\<lparr>statsByTier := countTiers cw (statsByTier st2)\<rparr>
            in (fst acc @ [cw], fst (snd acc) @ winners cw, st3))
         else (fst acc @ [cw], fst (snd acc), st))"

definition processContest ::
    "(string \<times> entry list) list \<Rightarrow> (string \<rightharpoonup> drawResult) \<Rightarrow> string \<Rightarrow> rat \<Rightarrow>
     contestWinners list \<times> winner list \<times> winnerStats \<Rightarrow> string \<Rightarrow>
     error + contestWinners list \<times> winner list \<times> winnerStats" where
  "processContest entriesByContest resultsMap effectivePlatform pool acc c =
     (case contestWinnersOf entriesByContest resultsMap effectivePlatform c of
        Inl err \<Rightarrow> Inl err
      | Inr cw \<Rightarrow> Inr (recordContest pool acc cw))"

text \<open>The inner loop over one batch of contests; a throw ends the run.\<close>

fun processBatch ::
    "(string \<times> entry list) list \<Rightarrow> (string \<rightharpoonup> drawResult) \<Rightarrow> string \<Rightarrow> rat \<Rightarrow> string list \<Rightarrow>
     contestWinners list \<times> winner list \<times> winnerStats \<Rightarrow>
     error + contestWinners list \<times> winner list \<times> winnerStats" where
  "processBatch entriesByContest resultsMap effectivePlatform pool [] acc = Inr acc"
| "processBatch entriesByContest resultsMap effectivePlatform pool (c # batch) acc =
     (case processContest entriesByContest resultsMap effectivePlatform pool acc c of
        Inl err \<Rightarrow> Inl err
      | Inr acc' \<Rightarrow> processBatch entriesByContest resultsMap effectivePlatform pool batch acc')"

definition winnersBatchSize :: nat where
  "winnersBatchSize = 10"

text \<open>
  The outer loop, \<^verbatim>\<open>for (let i = 0; i < contestKeys.length; i += batchSize)\<close>, over the
  slices \<^verbatim>\<open>contestKeys.slice(i, i + batchSize)\<close>.
\<close>

function processContests ::
    "(string \<times> entry list) list \<Rightarrow> (string \<rightharpoonup> drawResult) \<Rightarrow> string \<Rightarrow> rat \<Rightarrow> string list \<Rightarrow> nat \<Rightarrow>
     contestWinners list \<times> winner list \<times> winnerStats \<Rightarrow>
     error + contestWinners list \<times> winner list \<times> winnerStats" where
  "processContests entriesByContest resultsMap effectivePlatform pool contestKeys i acc =
     (if i < length contestKeys then
        (case processBatch entriesByContest resultsMap effectivePlatform pool
                (take winnersBatchSize (drop i contestKeys)) acc of
           Inl err \<Rightarrow> Inl err
         | Inr acc' \<Rightarrow>
             processContests entriesByContest resultsMap effectivePlatform pool contestKeys
               (i + winnersBatchSize) acc')
      else Inr acc)"
  by pat_completeness auto
termination
  by (relation "measure (\<lambda>(g, m, p, pool, contestKeys, i, acc). length contestKeys - i)")
     (auto simp: winnersBatchSize_def)

declare processContests.simps [simp del]

text \<open>The part of \<^verbatim>\<open>calculateAllWinners\<close> between the look into the cache and the write to it.\<close>

definition computeAllWinners :: "entry list \<Rightarrow> drawResult list \<Rightarrow> string \<Rightarrow> error + winnersResult" where
  "computeAllWinners entries rs pf =
     (let filteredEntries = (if pf \<noteq> [] \<and> pf \<noteq> ''ALL'' then filterByPlatform entries pf else entries)
      in case groupEntriesByContest filteredEntries of
           Inl err \<Rightarrow> Inl err
         | Inr entriesByContest \<Rightarrow>
             (let resultsMap = resultsMapOf rs;
                  contestKeys = allContestIdsOf rs entriesByContest;
                  effectivePlatform = (if pf = ''ALL'' then ''DEFAULT'' else pf);
                  pool = getPrizePool effectivePlatform;
                  stats0 = \<lparr>totalContests = 0, contestsWithWinners = 0,
                            statsByTier = [5 \<mapsto> 0, 4 \<mapsto> 0, 3 \<mapsto> 0, 2 \<mapsto> 0, 1 \<mapsto> 0],
                            totalWinners = 0, statsTotalPrizeAwarded = 0,
                            statsPlatform = pf, statsPrizePool = pool\<rparr>
              in case processContests entriesByContest resultsMap effectivePlatform pool
                        contestKeys 0 ([], [], stats0) of
                   Inl err \<Rightarrow> Inl err
                 | Inr done \<Rightarrow>
                     (let aw = fst (snd done);
                          st = (snd (snd done))\<lparr>totalWinners := length aw\<rparr>
                      in Inr \<lparr>contestResults =
                                 sort_key (\<lambda>cw. - parseIntOr0 (cwContest cw)) (fst done),
                               allWinners = aw, winnersStats = st, resultPlatform = pf\<rparr>)))"

section \<open>The caches of the data fetcher\<close>

text \<open>
  What \<^verbatim>\<open>DataFetcher\<close> keeps between calls, the object \<^verbatim>\<open>cache\<close>: the fetched entries
  and recharges, each with the time of its fetch in milliseconds, the last validation
  with the hash of the entries it was stored under, and the last winner calculation
  with its two hashes. The validation slot is written by \<^verbatim>\<open>validateAllTickets\<close> with
  its result object and by \<^verbatim>\<open>DataStore.getAccurateValidationCounts\<close> with an object of
  three counters.
\<close>

datatype cachedValidation = CachedResults validationResults | CachedCounts nat nat nat

record fetchCache =
  cacheEntries :: "entry list option"
  cacheEntriesTimestamp :: int
  cacheRecharges :: "recharge list option"
  cacheRechargesTimestamp :: int
  cacheValidation :: "cachedValidation option"
  cacheValidationHash :: "string option"
  cacheWinners :: "winnersResult option"
  cacheWinnersEntriesHash :: "string option"
  cacheWinnersResultsHash :: "string option"

text \<open>
  \<^verbatim>\<open>simpleHash\<close>: the length, then ticket number (or contest) of the first and of the
  last element. A result row has no ticket number.
\<close>

definition simpleHashEntries :: "entry list \<Rightarrow> string" where
  "simpleHashEntries es =
     showNat (length es) @ ''-''
       @ (case es of [] \<Rightarrow> [] | e # _ \<Rightarrow> orElse (ticketNumber e) (contest e)) @ ''-''
       @ (if es = [] then [] else orElse (ticketNumber (last es)) (contest (last es)))"

definition simpleHashResults :: "drawResult list \<Rightarrow> string" where
  "simpleHashResults rs =
     showNat (length rs) @ ''-''
       @ (case rs of [] \<Rightarrow> [] | r # _ \<Rightarrow> resultContest r) @ ''-''
       @ (if rs = [] then [] else resultContest (last rs))"

definition getCachedValidation :: "fetchCache \<Rightarrow> cachedValidation option" where
  "getCachedValidation c =
     (case cacheEntries c of
        None \<Rightarrow> None
      | Some es \<Rightarrow>
          (case cacheValidation c of
             None \<Rightarrow> None
           | Some v \<Rightarrow> (if cacheValidationHash c = Some (simpleHashEntries es) then Some v else None)))"

definition setCachedValidation :: "fetchCache \<Rightarrow> cachedValidation \<Rightarrow> fetchCache" where
  "setCachedValidation c v =
     c\<lparr>cacheValidation := Some v,
       cacheValidationHash :=
         Some (case cacheEntries c of None \<Rightarrow> [] | Some es \<Rightarrow> simpleHashEntries es)\<rparr>"

definition isWinnersCacheValid :: "fetchCache \<Rightarrow> entry list \<Rightarrow> drawResult list \<Rightarrow> bool" where
  "isWinnersCacheValid c entries rs =
     (case cacheWinners c of
        None \<Rightarrow> False
      | Some _ \<Rightarrow> cacheWinnersEntriesHash c = Some (simpleHashEntries entries)
                 \<and> cacheWinnersResultsHash c = Some (simpleHashResults rs))"

definition setCachedWinners :: "fetchCache \<Rightarrow> winnersResult \<Rightarrow> string \<Rightarrow> string \<Rightarrow> fetchCache" where
  "setCachedWinners c w entriesHash resultsHash =
     c\<lparr>cacheWinners := Some w, cacheWinnersEntriesHash := Some entriesHash,
       cacheWinnersResultsHash := Some resultsHash\<rparr>"

text \<open>
  \<^verbatim>\<open>validateAllTickets(entries, recharges, skipCache)\<close>, with the cache as state. A
  cached result object has no \<^verbatim>\<open>entriesCount\<close>, so the test that would return it
  fails and the validation is computed; on a cached object of counters the read of
  \<^verbatim>\<open>cached.stats.total\<close> throws.
\<close>

definition validateAllTickets ::
    "fetchCache \<Rightarrow> entry list \<Rightarrow> recharge list \<Rightarrow> bool \<Rightarrow> error + validationResults \<times> fetchCache" where
  "validateAllTickets c entries recharges skipCache =
     (let compute =
            (case computeValidation entries recharges of
               Inl err \<Rightarrow> Inl err
             | Inr r \<Rightarrow> Inr (r, setCachedValidation c (CachedResults r)))
      in if skipCache then compute
         else
           (case getCachedValidation c of
              Some (CachedCounts v i u) \<Rightarrow>
                Inl (TypeError ''Cannot read properties of undefined (reading 'total')'')
            | _ \<Rightarrow> compute))"

text \<open>
  \<^verbatim>\<open>calculateAllWinners(entries, results, platform)\<close>, with the cache as state and
  with the computation between the look into the cache and the write to it as a
  parameter: the program's is \<open>computeAllWinners\<close>. A throw of the computation leaves
  the cache as it was.
\<close>

definition calculateAllWinnersWith ::
    "(entry list \<Rightarrow> drawResult list \<Rightarrow> string \<Rightarrow> error + winnersResult) \<Rightarrow>
     fetchCache \<Rightarrow> entry list \<Rightarrow> drawResult list \<Rightarrow> string \<Rightarrow> error + winnersResult \<times> fetchCache" where
  "calculateAllWinnersWith compute c entries rs pf =
     (let stored =
            (case compute entries rs pf of
               Inl err \<Rightarrow> Inl err
             | Inr fresh \<Rightarrow>
                 Inr (fresh, setCachedWinners c fresh (simpleHashEntries entries)
                               (simpleHashResults rs)))
      in if isWinnersCacheValid c entries rs then
           (case cacheWinners c of
              Some cached \<Rightarrow> (if resultPlatform cached = pf then Inr (cached, c) else stored)
            | None \<Rightarrow> stored)
         else stored)"

definition calculateAllWinners ::
    "fetchCache \<Rightarrow> entry list \<Rightarrow> drawResult list \<Rightarrow> string \<Rightarrow> error + winnersResult \<times> fetchCache" where
  "calculateAllWinners = calculateAllWinnersWith computeAllWinners"

section \<open>Notions used in the statements\<close>

text \<open>A ticket that \<^verbatim>\<open>validateTicket\<close> answers from its upstream status alone.\<close>

definition upstreamDecided :: "entry \<Rightarrow> bool" where
  "upstreamDecided t =
     (toUpperCase (status t) \<in> set preValidStatuses \<or> toUpperCase (status t) \<in> set preInvalidStatuses)"

text \<open>Records whose date, when there is one, is a date of the calendar.\<close>

definition entryDateOk :: "entry \<Rightarrow> bool" where
  "entryDateOk e = (case parsedDate e of None \<Rightarrow> True | Some d \<Rightarrow> valid_date d)"

definition rechargeDateOk :: "recharge \<Rightarrow> bool" where
  "rechargeDateOk r = (case rechargeTime r of None \<Rightarrow> True | Some d \<Rightarrow> valid_date d)"

text \<open>
  The draw window of a moment: its eligible draw date as \<^verbatim>\<open>YYYY-MM-DD\<close>, the empty
  string when there is none.
\<close>

definition drawWindow :: "jsdate option \<Rightarrow> string" where
  "drawWindow t =
     (case getEligibleDrawDate t of
        Inr (Some e) \<Rightarrow> getBrazilDateString (Some e)
      | _ \<Rightarrow> [])"

text \<open>
  The scored entry that \<^verbatim>\<open>calculateContestWinners\<close> builds for an entry, if it builds
  one: entries without numbers and entries that match no winning number get none.
\<close>

definition scoreOf :: "int list \<Rightarrow> entry \<Rightarrow> winner option" where
  "scoreOf winning e =
     (case numbers e of
        None \<Rightarrow> None
      | Some ns \<Rightarrow>
          (if ns = [] \<or> fst (countMatches ns winning) = 0 then None
           else Some \<lparr>winnerEntry = e, matches = fst (countMatches ns winning),
                       matchedNumbers = snd (countMatches ns winning),
                       winnerIsValid = isValidEntry e\<rparr>))"

definition scoresOf :: "int list \<Rightarrow> entry list \<Rightarrow> winner list" where
  "scoresOf winning es = List.map_filter (scoreOf winning) es"

text \<open>A scored entry that goes to the winners list: valid, with at least three matches.\<close>

definition qualifies :: "winner \<Rightarrow> bool" where
  "qualifies w = (winnerIsValid w \<and> matches w \<ge> MIN_MATCHES_TO_WIN)"

text \<open>An entry whose list of numbers is missing or empty, or that matches no winning number.\<close>

definition noMatch :: "int list \<Rightarrow> entry \<Rightarrow> bool" where
  "noMatch winning e =
     (case numbers e of
        None \<Rightarrow> True
      | Some ns \<Rightarrow> ns = [] \<or> fst (countMatches ns winning) = 0)"

text \<open>A result with which a contest counts as drawn.\<close>

definition wellFormedResult :: "drawResult \<Rightarrow> bool" where
  "wellFormedResult r = (\<not> isNoDraw r \<and> length (resultNumbers r) = 5)"

text \<open>The key under which \<^verbatim>\<open>groupEntriesByContest\<close> files an entry.\<close>

definition contestKey :: "entry \<Rightarrow> string" where
  "contestKey e = orElse (contest e) ''Unknown''"

text \<open>
  The contests \<^verbatim>\<open>calculateAllWinners\<close> goes through, in its order (none when the
  grouping throws), and what it computes for one of them.
\<close>

definition scopedEntries :: "entry list \<Rightarrow> string \<Rightarrow> entry list" where
  "scopedEntries es pf = (if pf \<noteq> [] \<and> pf \<noteq> ''ALL'' then filterByPlatform es pf else es)"

definition contestUniverse :: "entry list \<Rightarrow> drawResult list \<Rightarrow> string \<Rightarrow> string list" where
  "contestUniverse es rs pf =
     (case groupEntriesByContest (scopedEntries es pf) of
        Inl err \<Rightarrow> []
      | Inr grouped \<Rightarrow> allContestIdsOf rs grouped)"

definition contestOutcome ::
    "entry list \<Rightarrow> drawResult list \<Rightarrow> string \<Rightarrow> string \<Rightarrow> error + contestWinners" where
  "contestOutcome es rs pf c =
     (case groupEntriesByContest (scopedEntries es pf) of
        Inl err \<Rightarrow> Inl err
      | Inr grouped \<Rightarrow>
          contestWinnersOf grouped (resultsMapOf rs) (if pf = ''ALL'' then ''DEFAULT'' else pf) c)"

section \<open>Sample data\<close>

text \<open>Sunday 31 December 2023, 21:00: the day itself and the next one are no-draw days.\<close>

definition newYearsEve2023 :: jsdate where
  "newYearsEve2023 =
     \<lparr>year = 2023, month = 11, mday = 31, hours = 21, minutes = 0, seconds = 0, millis = 0\<rparr>"

text \<open>
  Monday 6 January 2025: a recharge of owner \<open>G1\<close> at 10:00 and two tickets of the same
  owner for the draw of that day, registered at 10:05 and 10:10.
\<close>

definition sampleRecharge :: recharge where
  "sampleRecharge =
     \<lparr>rechargeGameId = ''G1'', rechargeId = ''R1'',
      rechargeTime = Some \<lparr>year = 2025, month = 0, mday = 6, hours = 10, minutes = 0,
                            seconds = 0, millis = 0\<rparr>,
      amount = 10\<rparr>"

definition sampleTicket1 :: entry where
  "sampleTicket1 =
     \<lparr>parsedDate = Some \<lparr>year = 2025, month = 0, mday = 6, hours = 10, minutes = 5,
                          seconds = 0, millis = 0\<rparr>,
      platform = ''POPN1'', gameId = ''G1'', numbers = Some [1, 2, 3, 4, 5],
      drawDate = ''06/01/2025'', contest = ''10'', ticketNumber = ''T1'', status = ''PENDING''\<rparr>"

definition sampleTicket2 :: entry where
  "sampleTicket2 =
     \<lparr>parsedDate = Some \<lparr>year = 2025, month = 0, mday = 6, hours = 10, minutes = 10,
                          seconds = 0, millis = 0\<rparr>,
      platform = ''POPN1'', gameId = ''G1'', numbers = Some [1, 2, 3, 4, 9],
      drawDate = ''06/01/2025'', contest = ''10'', ticketNumber = ''T2'', status = ''PENDING''\<rparr>"

text \<open>A ticket of owner \<open>G2\<close>, registered the same Monday at 21:00 for the draw of Tuesday.\<close>

definition lateTicket :: entry where
  "lateTicket =
     \<lparr>parsedDate = Some \<lparr>year = 2025, month = 0, mday = 6, hours = 21, minutes = 0,
                          seconds = 0, millis = 0\<rparr>,
      platform = ''POPN1'', gameId = ''G2'', numbers = Some [1, 2, 3, 4, 5],
      drawDate = ''07/01/2025'', contest = ''11'', ticketNumber = ''T3'', status = ''PENDING''\<rparr>"

text \<open>The first ticket again, marked as validated upstream in lower case.\<close>

definition preValidatedTicket :: entry where
  "preValidatedTicket = sampleTicket1\<lparr>status := ''validado''\<rparr>"

text \<open>A matcher that throws whenever it is called.\<close>

definition throwingMatcher :: "entry \<Rightarrow> recharge list \<Rightarrow> entry list \<Rightarrow> error + recharge option" where
  "throwingMatcher ticket recharges allTickets = Inl (Error ''matcher invoked'')"

text \<open>The late ticket, as a ticket of owner \<open>G1\<close>, who has a recharge.\<close>

definition lateFundedTicket :: entry where
  "lateFundedTicket = lateTicket\<lparr>gameId := ''G1''\<rparr>"


definition mondayAt21 :: jsdate where
  "mondayAt21 =
     \<lparr>year = 2025, month = 0, mday = 6, hours = 21, minutes = 0, seconds = 0, millis = 0\<rparr>"



text \<open>The first ticket again, under an owner id that names a member of \<^verbatim>\<open>Object.prototype\<close>.\<close>

definition prototypeTicket :: entry where
  "prototypeTicket = sampleTicket1\<lparr>gameId := ''constructor'', ticketNumber := ''T6''\<rparr>"


text \<open>The cache before anything was fetched, and a snapshot of three tickets.\<close>

definition emptyCache :: fetchCache where
  "emptyCache =
     \<lparr>cacheEntries = None, cacheEntriesTimestamp = 0,
      cacheRecharges = None, cacheRechargesTimestamp = 0,
      cacheValidation = None, cacheValidationHash = None,
      cacheWinners = None, cacheWinnersEntriesHash = None, cacheWinnersResultsHash = None\<rparr>"

definition sampleEntries :: "entry list" where
  "sampleEntries = [sampleTicket1, sampleTicket2, lateTicket]"

text \<open>
  Contest 10 with its result, two tickets that match five numbers and three that
  match four; the same result with only four numbers; a ticket without numbers and
  a ticket that matches nothing.
\<close>

definition ticketWith :: "string \<Rightarrow> int list option \<Rightarrow> entry" where
  "ticketWith n ns = sampleTicket1\<lparr>ticketNumber := n, numbers := ns\<rparr>"

definition tierResult :: drawResult where
  "tierResult =
     \<lparr>resultContest = ''10'', resultDrawDate = ''06/01/2025'',
      resultNumbers = [1, 2, 3, 4, 5], isNoDraw = False\<rparr>"

definition tierEntries :: "entry list" where
  "tierEntries =
     [ticketWith ''W1'' (Some [1, 2, 3, 4, 5]), ticketWith ''W2'' (Some [5, 4, 3, 2, 1]),
      ticketWith ''W3'' (Some [1, 2, 3, 4, 9]), ticketWith ''W4'' (Some [1, 2, 3, 5, 9]),
      ticketWith ''W5'' (Some [2, 3, 4, 5, 9])]"

definition malformedResult :: drawResult where
  "malformedResult = tierResult\<lparr>resultNumbers := [1, 2, 3, 4]\<rparr>"

definition blankTicket :: entry where
  "blankTicket = ticketWith ''W6'' None"

definition missTicket :: entry where
  "missTicket = ticketWith ''W7'' (Some [70, 71, 72, 73, 74])"

section \<open>Properties of the calendar\<close>

lemma div_step:
  fixes y k :: int
  assumes "0 < k"
  shows "y div k - (y - 1) div k = (if y mod k = 0 then 1 else 0)"
proof (cases "y mod k = 0")
  case True
  have "y = k * (y div k)" using True by auto
  then have e: "y - 1 = k * (y div k - 1) + (k - 1)" by (simp add: algebra_simps)
  have "(y - 1) div k = y div k - 1"
    by (rule int_div_pos_eq [OF e]) (use assms in auto)
  with True show ?thesis by simp
next
  case False
  have "0 \<le> y mod k" "y mod k < k" using assms by auto
  with False have m: "0 \<le> y mod k - 1" "y mod k - 1 < k" by auto
  have e: "y - 1 = k * (y div k) + (y mod k - 1)" by (simp add: algebra_simps)
  have "(y - 1) div k = y div k"
    by (rule int_div_pos_eq [OF e m])
  with False show ?thesis by simp
qed

lemma leap_step: "(y div 4 - y div 100 + y div 400) - ((y - 1) div 4 - (y - 1) div 100 + (y - 1) div 400) = (if isLeapYear y then 1 else (0::int))"
proof -
  have a: "y div 4 - (y - 1) div 4 = (if y mod 4 = 0 then 1 else 0)" by (rule div_step) simp
  have b: "y div 100 - (y - 1) div 100 = (if y mod 100 = 0 then 1 else 0)" by (rule div_step) simp
  have c: "y div 400 - (y - 1) div 400 = (if y mod 400 = 0 then 1 else 0)" by (rule div_step) simp
  have d: "y mod 100 = 0" if "y mod 400 = 0"
  proof -
    have "(400::int) dvd y" using that by (simp add: mod_eq_0_iff_dvd)
    moreover have "(100::int) dvd 400" by simp
    ultimately have "(100::int) dvd y" by (rule dvd_trans[rotated])
    then show ?thesis by (simp add: mod_eq_0_iff_dvd)
  qed
  have e: "y mod 4 = 0" if "y mod 100 = 0"
  proof -
    have "(100::int) dvd y" using that by (simp add: mod_eq_0_iff_dvd)
    moreover have "(4::int) dvd 100" by simp
    ultimately have "(4::int) dvd y" by (rule dvd_trans[rotated])
    then show ?thesis by (simp add: mod_eq_0_iff_dvd)
  qed
  define A where "A = y div 4 - (y - 1) div 4"
  define B where "B = y div 100 - (y - 1) div 100"
  define C where "C = y div 400 - (y - 1) div 400"
  have lhs: "(y div 4 - y div 100 + y div 400) - ((y - 1) div 4 - (y - 1) div 100 + (y - 1) div 400) = A - B + C"
    unfolding A_def B_def C_def by linarith
  have "A - B + C = (if isLeapYear y then 1 else 0)"
  proof (cases "y mod 4 = 0")
    case False
    have n100: "y mod 100 \<noteq> 0"
    proof
      assume "y mod 100 = 0"
      then have "y mod 4 = 0" by (rule e)
      with False show False by (rule notE)
    qed
    have n400: "y mod 400 \<noteq> 0"
    proof
      assume "y mod 400 = 0"
      then have "y mod 100 = 0" by (rule d)
      with n100 show False by (rule notE)
    qed
    from False n100 n400 have "A = 0" "B = 0" "C = 0" "\<not> isLeapYear y"
      unfolding A_def B_def C_def isLeapYear_def by (simp_all only: a b c if_False simp_thms)
    then show ?thesis by simp
  next
    case t4: True
    show ?thesis
    proof (cases "y mod 100 = 0")
      case False
      have f4: "y mod 400 \<noteq> 0"
      proof
        assume "y mod 400 = 0"
        then have "y mod 100 = 0" by (rule d)
        with False show False by (rule notE)
      qed
      from False t4 f4 have "A = 1" "B = 0" "C = 0" "isLeapYear y"
        unfolding A_def B_def C_def isLeapYear_def by (simp_all only: a b c if_False if_True simp_thms)
      then show ?thesis by simp
    next
      case t100: True
      show ?thesis
      proof (cases "y mod 400 = 0")
        case True
        with t4 t100 have "A = 1" "B = 1" "C = 1" "isLeapYear y"
          unfolding A_def B_def C_def isLeapYear_def by (simp_all only: a b c if_False if_True simp_thms)
        then show ?thesis by simp
      next
        case False
        with t4 t100 have "A = 1" "B = 1" "C = 0" "\<not> isLeapYear y"
          unfolding A_def B_def C_def isLeapYear_def by (simp_all only: a b c if_False if_True simp_thms)
        then show ?thesis by simp
      qed
    qed
  qed
  with lhs show ?thesis by (simp only:)
qed


lemma march_step:
  fixes a b c a' b' c' k y M1 M2 :: int
  assumes "(a - b + c) - (a' - b' + c') = k"
    and "M1 = 365 * (y - 1) + a' - b' + c' + (364 + k) - 719468"
    and "M2 = 365 * y + a - b + c - 719468"
  shows "M1 + 1 = M2"
  using assms by arith

lemma makeDay_month_end:
  assumes "m < 11"
  shows "makeDay y m (daysInMonth y m) + 1 = makeDay y (m + 1) 1"
proof -
  from assms have "m = 0 \<or> m = 1 \<or> m = 2 \<or> m = 3 \<or> m = 4 \<or> m = 5
    \<or> m = 6 \<or> m = 7 \<or> m = 8 \<or> m = 9 \<or> m = 10" by arith
  then consider "m = 0" | "m = 1" | "m = 2" | "m = 3" | "m = 4" | "m = 5"
    | "m = 6" | "m = 7" | "m = 8" | "m = 9" | "m = 10" by (elim disjE)
  then show ?thesis
  proof cases
    case 2
    have "makeDay y 1 (daysInMonth y 1) + 1 = makeDay y (1 + 1) 1"
    proof (cases "isLeapYear y")
      case True
      with leap_step [of y] have "(y div 4 - y div 100 + y div 400)
          - ((y - 1) div 4 - (y - 1) div 100 + (y - 1) div 400) = 1" by simp
      moreover have "makeDay y 1 29 = 365 * (y - 1) + (y - 1) div 4 - (y - 1) div 100
          + (y - 1) div 400 + (364 + 1) - 719468"
        by (simp add: makeDay_def Let_def)
      moreover have "makeDay y 2 1 = 365 * y + y div 4 - y div 100 + y div 400 - 719468"
        by (simp add: makeDay_def Let_def)
      ultimately have "makeDay y 1 29 + 1 = makeDay y 2 1" by (rule march_step)
      moreover have "(1::nat) + 1 = 2" by simp
      ultimately have "makeDay y 1 29 + 1 = makeDay y (1 + 1) 1" by (simp only:)
      with True show ?thesis by (simp only: daysInMonth_def if_True simp_thms)
    next
      case False
      with leap_step [of y] have "(y div 4 - y div 100 + y div 400)
          - ((y - 1) div 4 - (y - 1) div 100 + (y - 1) div 400) = 0" by simp
      moreover have "makeDay y 1 28 = 365 * (y - 1) + (y - 1) div 4 - (y - 1) div 100
          + (y - 1) div 400 + (364 + 0) - 719468"
        by (simp add: makeDay_def Let_def)
      moreover have "makeDay y 2 1 = 365 * y + y div 4 - y div 100 + y div 400 - 719468"
        by (simp add: makeDay_def Let_def)
      ultimately have "makeDay y 1 28 + 1 = makeDay y 2 1" by (rule march_step)
      moreover have "(1::nat) + 1 = 2" by simp
      ultimately have "makeDay y 1 28 + 1 = makeDay y (1 + 1) 1" by (simp only:)
      with False show ?thesis by (simp only: daysInMonth_def if_True if_False simp_thms)
    qed
    with 2 show ?thesis by (simp only:)
  qed (simp_all add: makeDay_def daysInMonth_def Let_def)
qed

lemma makeDay_year_end: "makeDay y 11 31 + 1 = makeDay (y + 1) 0 1"
  by (simp add: makeDay_def Let_def)

lemma makeDay_nextDay:
  assumes "valid_date d"
  shows "makeDay (year (nextDay d)) (month (nextDay d)) (mday (nextDay d))
         = makeDay (year d) (month d) (mday d) + 1"
proof (cases "mday d < daysInMonth (year d) (month d)")
  case True
  then show ?thesis by (simp add: nextDay_def makeDay_def Let_def)
next
  case False
  with assms have last: "mday d = daysInMonth (year d) (month d)"
    by (simp add: valid_date_def)
  show ?thesis
  proof (cases "month d < 11")
    case True
    with last makeDay_month_end [OF True, of "year d"] show ?thesis
      by (simp add: nextDay_def)
  next
    case False
    with assms have "month d = 11" by (simp add: valid_date_def)
    with last makeDay_year_end [of "year d"] show ?thesis
      by (simp add: nextDay_def daysInMonth_def)
  qed
qed

lemma getDay_nextDay:
  assumes "valid_date d"
  shows "getDay (nextDay d) = (getDay d + 1) mod 7"
proof -
  define n where "n = makeDay (year d) (month d) (mday d)"
  have "getDay (nextDay d) = nat ((n + 1 + 4) mod 7)"
    unfolding getDay_def n_def using makeDay_nextDay [OF assms] by simp
  moreover have "getDay d = nat ((n + 4) mod 7)"
    unfolding getDay_def n_def by simp
  moreover have "nat ((n + 1 + 4) mod 7) = (nat ((n + 4) mod 7) + 1) mod 7"
  proof -
    define r where "r = (n + 4) mod 7"
    have r: "0 \<le> r" "r < 7" unfolding r_def by simp_all
    have "(n + 1 + 4) mod 7 = ((n + 4) + 1) mod 7" by (simp add: add.commute)
    also have "\<dots> = ((n + 4) mod 7 + 1) mod 7" by (rule mod_add_left_eq [symmetric])
    finally have "(n + 1 + 4) mod 7 = (r + 1) mod 7" unfolding r_def .
    moreover have "nat ((r + 1) mod 7) = (nat r + 1) mod 7"
      using r by (simp add: nat_mod_distrib nat_add_distrib)
    ultimately show ?thesis unfolding r_def by simp
  qed
  ultimately show ?thesis by simp
qed


lemma valid_date_nextDay: "valid_date d \<Longrightarrow> valid_date (nextDay d)"
  by (auto simp: valid_date_def nextDay_def daysInMonth_def)

lemma valid_date_setHours0: "valid_date d \<Longrightarrow> valid_date (setHours0 d)"
  by (simp add: valid_date_def setHours0_def)

lemma isNoDrawDay_iff: "isNoDrawDay d = (getDay d = 0 \<or> isHoliday d)"
  by (simp add: isNoDrawDay_def isHoliday_def)

lemma isHoliday_nextDay: "isHoliday d \<Longrightarrow> \<not> isHoliday (nextDay d)"
  by (auto simp: isHoliday_def nextDay_def daysInMonth_def)

lemma weekday_step:
  fixes w a b :: nat
  assumes "w < 7" "a = (w + 1) mod 7" "b = (a + 1) mod 7"
  shows "\<not> (w = 0 \<and> a = 0)" "\<not> (a = 0 \<and> b = 0)" "\<not> (w = 0 \<and> b = 0)"
  using assms by presburger+

lemma three_days:
  assumes v: "valid_date d"
  shows "\<not> isNoDrawDay d \<or> \<not> isNoDrawDay (nextDay d) \<or> \<not> isNoDrawDay (nextDay (nextDay d))"
proof -
  have w: "getDay d < 7" unfolding getDay_def by simp
  have g1: "getDay (nextDay d) = (getDay d + 1) mod 7" by (rule getDay_nextDay [OF v])
  have g2: "getDay (nextDay (nextDay d)) = (getDay (nextDay d) + 1) mod 7"
    by (rule getDay_nextDay [OF valid_date_nextDay [OF v]])
  have sun: "\<not> (getDay d = 0 \<and> getDay (nextDay d) = 0)"
    "\<not> (getDay (nextDay d) = 0 \<and> getDay (nextDay (nextDay d)) = 0)"
    "\<not> (getDay d = 0 \<and> getDay (nextDay (nextDay d)) = 0)"
    using weekday_step [OF w g1 g2] by blast+
  show ?thesis
  proof (cases "isHoliday d")
    case True
    then have a: "\<not> isHoliday (nextDay d)" by (rule isHoliday_nextDay)
    from True have "\<not> isHoliday (nextDay (nextDay d))"
      by (auto simp: isHoliday_def nextDay_def daysInMonth_def)
    with a sun(2) show ?thesis by (auto simp: isNoDrawDay_iff)
  next
    case False
    show ?thesis
    proof (cases "isHoliday (nextDay d)")
      case True
      then have "\<not> isHoliday (nextDay (nextDay d))" by (rule isHoliday_nextDay)
      with False sun(3) show ?thesis by (auto simp: isNoDrawDay_iff)
    next
      case nh: False
      with False sun(1) show ?thesis by (auto simp: isNoDrawDay_iff)
    qed
  qed
qed

lemma loop_found:
  assumes "0 < i" "i + k < 14"
    and "\<forall>j<k. noDraw ((nextDay ^^ Suc j) p)"
    and "\<not> noDraw ((nextDay ^^ Suc k) p)"
  shows "nextValidDrawDateLoop noDraw i p = Inr ((nextDay ^^ Suc k) p)"
  using assms
proof (induction k arbitrary: i p)
  case 0
  then show ?case by (subst nextValidDrawDateLoop.simps) simp
next
  case (Suc k)
  have first: "noDraw (nextDay p)" using Suc.prems(3) by (auto dest: spec [of _ 0])
  have "nextValidDrawDateLoop noDraw (i + 1) (nextDay p) = Inr ((nextDay ^^ Suc k) (nextDay p))"
  proof (rule Suc.IH)
    show "0 < i + 1" by simp
    show "i + 1 + k < 14" using Suc.prems(2) by simp
    show "\<forall>j<k. noDraw ((nextDay ^^ Suc j) (nextDay p))"
      using Suc.prems(3) by (auto simp: funpow_swap1 dest: spec [of _ "Suc _"])
    show "\<not> noDraw ((nextDay ^^ Suc k) (nextDay p))"
      using Suc.prems(4) by (simp add: funpow_swap1)
  qed
  moreover have "i < 14" using Suc.prems(2) by simp
  ultimately show ?case using first Suc.prems(1)
    by (subst nextValidDrawDateLoop.simps) (simp add: funpow_swap1)
qed

lemma loop_exhausted:
  assumes "0 < i" "i + n = 14"
    and "\<forall>j<n. noDraw ((nextDay ^^ Suc j) p)"
  shows "nextValidDrawDateLoop noDraw i p = Inl (Error ''No valid draw date found in range'')"
  using assms
proof (induction n arbitrary: i p)
  case 0
  then show ?case by (subst nextValidDrawDateLoop.simps) simp
next
  case (Suc n)
  have first: "noDraw (nextDay p)" using Suc.prems(3) by (auto dest: spec [of _ 0])
  have "nextValidDrawDateLoop noDraw (i + 1) (nextDay p)
        = Inl (Error ''No valid draw date found in range'')"
  proof (rule Suc.IH)
    show "0 < i + 1" by simp
    show "i + 1 + n = 14" using Suc.prems(2) by simp
    show "\<forall>j<n. noDraw ((nextDay ^^ Suc j) (nextDay p))"
      using Suc.prems(3) by (auto simp: funpow_swap1 dest: spec [of _ "Suc _"])
  qed
  moreover have "i < 14" using Suc.prems(2) by simp
  ultimately show ?case using first Suc.prems(1)
    by (subst nextValidDrawDateLoop.simps) simp
qed

lemma nextValidDrawDateWith_found:
  assumes k: "k < 14"
    and before: "\<forall>j<k. noDraw (dayFrom fromDate j)"
    and at: "\<not> noDraw (dayFrom fromDate k)"
  shows "nextValidDrawDateWith noDraw fromDate = Inr (dayFrom fromDate k)"
proof (cases k)
  case 0
  with at show ?thesis
    unfolding nextValidDrawDateWith_def dayFrom_def
    by (subst nextValidDrawDateLoop.simps) simp
next
  case (Suc k')
  have first: "noDraw (setHours0 fromDate)"
    using before Suc by (auto simp: dayFrom_def dest: spec [of _ 0])
  have "nextValidDrawDateLoop noDraw 1 (setHours0 fromDate) = Inr ((nextDay ^^ Suc k') (setHours0 fromDate))"
  proof (rule loop_found)
    show "(0::nat) < 1" by simp
    show "1 + k' < 14" using k Suc by simp
    show "\<forall>j<k'. noDraw ((nextDay ^^ Suc j) (setHours0 fromDate))"
      using before Suc by (auto simp: dayFrom_def dest: spec [of _ "Suc _"])
    show "\<not> noDraw ((nextDay ^^ Suc k') (setHours0 fromDate))"
      using at Suc by (simp add: dayFrom_def)
  qed
  with first Suc show ?thesis
    unfolding nextValidDrawDateWith_def dayFrom_def
    by (subst nextValidDrawDateLoop.simps) simp
qed

lemma nextValidDrawDateWith_exhausted:
  assumes "\<forall>j<14. noDraw (dayFrom fromDate j)"
  shows "nextValidDrawDateWith noDraw fromDate = Inl (Error ''No valid draw date found in range'')"
proof -
  have first: "noDraw (setHours0 fromDate)"
    using assms by (auto simp: dayFrom_def dest: spec [of _ 0])
  have "nextValidDrawDateLoop noDraw 1 (setHours0 fromDate)
        = Inl (Error ''No valid draw date found in range'')"
  proof (rule loop_exhausted [where n = 13])
    show "(0::nat) < 1" by simp
    show "(1::nat) + 13 = 14" by simp
    show "\<forall>j<13. noDraw ((nextDay ^^ Suc j) (setHours0 fromDate))"
      using assms by (auto simp: dayFrom_def dest: spec [of _ "Suc _"])
  qed
  with first show ?thesis
    unfolding nextValidDrawDateWith_def
    by (subst nextValidDrawDateLoop.simps) simp
qed

lemma draw_day_within_three:
  assumes "valid_date d"
  shows "\<exists>k<3. \<not> isNoDrawDay (dayFrom d k) \<and> (\<forall>j<k. isNoDrawDay (dayFrom d j))"
proof -
  have v: "valid_date (setHours0 d)" by (rule valid_date_setHours0 [OF assms])
  have d0: "dayFrom d 0 = setHours0 d" by (simp add: dayFrom_def)
  have d1: "dayFrom d 1 = nextDay (setHours0 d)" by (simp add: dayFrom_def)
  have d2: "dayFrom d 2 = nextDay (nextDay (setHours0 d))" by (simp add: dayFrom_def numeral_2_eq_2)
  from three_days [OF v] have t: "\<not> isNoDrawDay (dayFrom d 0) \<or> \<not> isNoDrawDay (dayFrom d 1) \<or> \<not> isNoDrawDay (dayFrom d 2)"
    by (simp only: d0 d1 d2)
  show ?thesis
  proof (cases "isNoDrawDay (dayFrom d 0)")
    case False
    then have "\<not> isNoDrawDay (dayFrom d 0) \<and> (\<forall>j<0. isNoDrawDay (dayFrom d j))" by simp
    then show ?thesis by (intro exI [of _ 0]) simp
  next
    case a: True
    show ?thesis
    proof (cases "isNoDrawDay (dayFrom d 1)")
      case False
      with a have "\<not> isNoDrawDay (dayFrom d 1) \<and> (\<forall>j<1. isNoDrawDay (dayFrom d j))" by simp
      then show ?thesis by (intro exI [of _ 1]) simp
    next
      case b: True
      with a t have c: "\<not> isNoDrawDay (dayFrom d 2)" by blast
      have "\<forall>j<2. isNoDrawDay (dayFrom d j)"
      proof (intro allI impI)
        fix j :: nat assume "j < 2"
        then have "j = 0 \<or> j = 1" by arith
        with a b show "isNoDrawDay (dayFrom d j)" by auto
      qed
      with c show ?thesis by (intro exI [of _ 2]) simp
    qed
  qed
qed

text \<open>
  C5. \<open>getNextValidDrawDate\<close> probes midnight of the starting day and of the days after
  it, at most 14 probes in all: it returns the first probe that is not a no-draw
  day, and throws \<^verbatim>\<open>No valid draw date found in range\<close> when all 14 probes are no-draw
  days (both stated for any test of no-draw days put in the place of \<open>isNoDrawDay\<close>).
  With \<open>isNoDrawDay\<close> itself (Sundays, 25 December, 1 January) the throw cannot
  happen: from every calendar date the earliest draw day at or after it is among the
  first three probes, and that day is returned.
\<close>

theorem getNextValidDrawDate_bounded_scan:
  "(\<forall>k<14. (\<forall>j<k. noDraw (dayFrom fromDate j)) \<and> \<not> noDraw (dayFrom fromDate k)
        \<longrightarrow> nextValidDrawDateWith noDraw fromDate = Inr (dayFrom fromDate k))
   \<and> ((\<forall>j<14. noDraw (dayFrom fromDate j))
        \<longrightarrow> nextValidDrawDateWith noDraw fromDate = Inl (Error ''No valid draw date found in range''))
   \<and> (valid_date fromDate
        \<longrightarrow> (\<exists>k<3. getNextValidDrawDate fromDate = Inr (dayFrom fromDate k)
                  \<and> \<not> isNoDrawDay (dayFrom fromDate k)
                  \<and> (\<forall>j<k. isNoDrawDay (dayFrom fromDate j))))"
proof (intro conjI allI impI)
  fix k assume "k < 14" "(\<forall>j<k. noDraw (dayFrom fromDate j)) \<and> \<not> noDraw (dayFrom fromDate k)"
  then show "nextValidDrawDateWith noDraw fromDate = Inr (dayFrom fromDate k)"
    by (intro nextValidDrawDateWith_found) auto
next
  assume "\<forall>j<14. noDraw (dayFrom fromDate j)"
  then show "nextValidDrawDateWith noDraw fromDate = Inl (Error ''No valid draw date found in range'')"
    by (rule nextValidDrawDateWith_exhausted)
next
  assume "valid_date fromDate"
  from draw_day_within_three [OF this] obtain k where k: "k < 3"
    "\<not> isNoDrawDay (dayFrom fromDate k)" "\<forall>j<k. isNoDrawDay (dayFrom fromDate j)" by blast
  have "getNextValidDrawDate fromDate = Inr (dayFrom fromDate k)"
    unfolding getNextValidDrawDate_def
    by (rule nextValidDrawDateWith_found) (use k in auto)
  with k show "\<exists>k<3. getNextValidDrawDate fromDate = Inr (dayFrom fromDate k)
                  \<and> \<not> isNoDrawDay (dayFrom fromDate k)
                  \<and> (\<forall>j<k. isNoDrawDay (dayFrom fromDate j))" by blast
qed

theorem getNextValidDrawDate_bounded_scan_witness:
  "valid_date newYearsEve2023
   \<and> nextValidDrawDateWith isNoDrawDay newYearsEve2023 = Inr (dayFrom newYearsEve2023 2)
   \<and> dayFrom newYearsEve2023 2
       = \<lparr>year = 2024, month = 0, mday = 2, hours = 0, minutes = 0, seconds = 0, millis = 0\<rparr>
   \<and> nextValidDrawDateWith (\<lambda>d. True) newYearsEve2023
       = Inl (Error ''No valid draw date found in range'')
   \<and> (\<exists>k<3. getNextValidDrawDate newYearsEve2023 = Inr (dayFrom newYearsEve2023 k))"
proof -
  have v: "valid_date newYearsEve2023" by code_simp
  have n0: "isNoDrawDay (dayFrom newYearsEve2023 0)" by code_simp
  have n1: "isNoDrawDay (dayFrom newYearsEve2023 1)" by code_simp
  have n2: "\<not> isNoDrawDay (dayFrom newYearsEve2023 2)" by code_simp
  have val: "dayFrom newYearsEve2023 2
       = \<lparr>year = 2024, month = 0, mday = 2, hours = 0, minutes = 0, seconds = 0, millis = 0\<rparr>"
    by code_simp
  have before: "\<forall>j<2. isNoDrawDay (dayFrom newYearsEve2023 j)"
  proof (intro allI impI)
    fix j :: nat assume "j < 2"
    then have "j = 0 \<or> j = 1" by arith
    with n0 n1 show "isNoDrawDay (dayFrom newYearsEve2023 j)" by auto
  qed
  note scan = getNextValidDrawDate_bounded_scan [of isNoDrawDay newYearsEve2023]
  note bound = getNextValidDrawDate_bounded_scan [of "\<lambda>d. True" newYearsEve2023]
  from scan before n2
  have found: "nextValidDrawDateWith isNoDrawDay newYearsEve2023 = Inr (dayFrom newYearsEve2023 2)"
    by simp
  from bound
  have thrown: "nextValidDrawDateWith (\<lambda>d. True) newYearsEve2023
       = Inl (Error ''No valid draw date found in range'')" by simp
  from scan v
  have total: "\<exists>k<3. getNextValidDrawDate newYearsEve2023 = Inr (dayFrom newYearsEve2023 k)"
    by blast
  from v found val thrown total show ?thesis by (intro conjI)
qed

section \<open>Properties of the recharge matcher\<close>

lemma showInt_nonempty: "showInt n \<noteq> []"
  by (subst showInt.simps) simp

lemma getBrazilDateString_nonempty: "getBrazilDateString (Some d) \<noteq> []"
  by (simp add: getBrazilDateString_def showInt_nonempty)

lemma getNextValidDrawDate_total:
  assumes "valid_date d"
  shows "\<exists>e. getNextValidDrawDate d = Inr e"
proof -
  from draw_day_within_three [OF assms] obtain k where k: "k < 3"
    "\<not> isNoDrawDay (dayFrom d k)" "\<forall>j<k. isNoDrawDay (dayFrom d j)" by blast
  have "getNextValidDrawDate d = Inr (dayFrom d k)"
    unfolding getNextValidDrawDate_def
    by (rule nextValidDrawDateWith_found) (use k in auto)
  then show ?thesis by blast
qed

lemma getEligibleDrawDate_None [simp]: "getEligibleDrawDate None = Inr None"
  by (simp add: getEligibleDrawDate_def)

lemma getEligibleDrawDate_total:
  assumes "valid_date d"
  shows "\<exists>e. getEligibleDrawDate (Some d) = Inr (Some e)"
proof -
  have "valid_date (nextDay (setHours0 d))"
    by (intro valid_date_nextDay valid_date_setHours0 assms)
  from getNextValidDrawDate_total [OF this] obtain e
    where "getNextValidDrawDate (nextDay (setHours0 d)) = Inr e" by blast
  then show ?thesis
    by (simp add: getEligibleDrawDate_def getBrazilDateString_nonempty Let_def)
qed

lemma getEligibleDrawDate_option_total:
  assumes "case t of None \<Rightarrow> True | Some d \<Rightarrow> valid_date d"
  shows "\<exists>r. getEligibleDrawDate t = Inr r"
proof (cases t)
  case None
  then have "getEligibleDrawDate t = Inr None" by simp
  then show ?thesis ..
next
  case (Some d)
  with assms have "valid_date d" by simp
  from getEligibleDrawDate_total [OF this] obtain e
    where "getEligibleDrawDate (Some d) = Inr (Some e)" ..
  with Some have "getEligibleDrawDate t = Inr (Some e)" by simp
  then show ?thesis ..
qed

lemma rechargeUsedLoop_total:
  assumes "\<forall>t\<in>set ts. entryDateOk t"
  shows "\<exists>b. rechargeUsedLoop s ts = Inr b"
  using assms
proof (induction ts)
  case Nil
  have "rechargeUsedLoop s [] = Inr False" by simp
  then show ?case ..
next
  case (Cons t ts)
  then have "entryDateOk t" by simp
  then obtain r where r: "getEligibleDrawDate (parsedDate t) = Inr r"
    using getEligibleDrawDate_option_total [of "parsedDate t"] by (auto simp: entryDateOk_def)
  from Cons obtain b where "rechargeUsedLoop s ts = Inr b" by auto
  with r show ?case by (cases r) auto
qed

lemma matchLoop_total:
  assumes "\<forall>r\<in>set rs. rechargeDateOk r" and "\<forall>t\<in>set ts. entryDateOk t"
  shows "\<exists>m. matchLoop ticket tt ts rs = Inr m"
  using assms(1)
proof (induction rs)
  case Nil
  then show ?case by simp
next
  case (Cons r rs)
  then have "rechargeDateOk r" by simp
  then obtain e where e: "getEligibleDrawDate (rechargeTime r) = Inr e"
    using getEligibleDrawDate_option_total [of "rechargeTime r"] by (auto simp: rechargeDateOk_def)
  from Cons obtain m where m: "matchLoop ticket tt ts rs = Inr m" by auto
  have "\<forall>t\<in>set (filter (isPriorTicket ticket tt r) ts). entryDateOk t" using assms(2) by auto
  from rechargeUsedLoop_total [OF this] obtain b
    where b: "rechargeUsedLoop (getBrazilDateString e) (filter (isPriorTicket ticket tt r) ts) = Inr b"
    by blast
  show ?case
  proof (cases e)
    case None
    with e m show ?thesis by simp
  next
    case (Some ed)
    with e m b show ?thesis by (auto simp: Let_def)
  qed
qed

lemma findMatchingRecharge_total:
  assumes "\<forall>r\<in>set rs. rechargeDateOk r" and "\<forall>t\<in>set ts. entryDateOk t"
  shows "\<exists>m. findMatchingRecharge ticket rs ts = Inr m"
proof -
  have "\<forall>r\<in>set (sort_key (\<lambda>r. - rechargeMillis r) (filter (isEligibleRecharge tt) rs)). rechargeDateOk r" for tt
    using assms(1) by auto
  from matchLoop_total [OF this assms(2)] show ?thesis
    by (auto simp: findMatchingRecharge_def Let_def split: option.splits)
qed

lemma splitOn_no_separator: "\<forall>c\<in>set a. \<not> sep c \<Longrightarrow> splitOn sep a = [a]"
  by (induction a) auto

lemma splitOn_at_separator:
  "\<forall>c\<in>set a. \<not> sep c \<Longrightarrow> sep s \<Longrightarrow> splitOn sep (a @ s # b) = a # splitOn sep b"
  by (induction a) auto

lemma splitOn_three:
  assumes "\<forall>c\<in>set a. \<not> sep c" "\<forall>c\<in>set b. \<not> sep c" "\<forall>c\<in>set c. \<not> sep c"
    and "sep s" "sep t"
  shows "splitOn sep (a @ s # b @ t # c) = [a, b, c]"
  using assms by (simp add: splitOn_at_separator splitOn_no_separator)

lemma normalizeDrawDate_day_first:
  assumes "\<forall>c\<in>set d. \<not> isDateSeparator c" "\<forall>c\<in>set m. \<not> isDateSeparator c"
    "\<forall>c\<in>set y. \<not> isDateSeparator c"
    and "isDateSeparator s" "isDateSeparator t" and "length d \<noteq> 4"
  shows "normalizeDrawDate (d @ s # m @ t # y) = y @ ''-'' @ padStart2 m @ ''-'' @ padStart2 d"
  using assms by (simp add: normalizeDrawDate_def splitOn_three Let_def)

lemma normalizeDrawDate_year_first:
  assumes "\<forall>c\<in>set d. \<not> isDateSeparator c" "\<forall>c\<in>set m. \<not> isDateSeparator c"
    "\<forall>c\<in>set y. \<not> isDateSeparator c"
    and "isDateSeparator s" "isDateSeparator t" and "length y = 4"
  shows "normalizeDrawDate (y @ s # m @ t # d) = y @ s # m @ t # d"
  using assms by (simp add: normalizeDrawDate_def splitOn_three Let_def)

lemma rechargeUsedLoop_False:
  assumes "rechargeUsedLoop s ps = Inr False" and "s \<noteq> []"
  shows "\<forall>t\<in>set ps. drawWindow (parsedDate t) \<noteq> s"
  using assms(1)
proof (induction ps)
  case Nil
  then show ?case by simp
next
  case (Cons p ps)
  then show ?case using assms(2)
    by (auto simp: drawWindow_def split: sum.splits option.splits if_splits)
qed


lemma matchLoop_Some:
  assumes "matchLoop ticket tt ts rs = Inr (Some r)"
  shows "r \<in> set rs
    \<and> (\<exists>e. getEligibleDrawDate (rechargeTime r) = Inr (Some e)
            \<and> getBrazilDateString (Some e) = normalizeDrawDate (drawDate ticket))
    \<and> (\<forall>t\<in>set ts. isPriorTicket ticket tt r t
            \<longrightarrow> drawWindow (parsedDate t) \<noteq> drawWindow (rechargeTime r))"
  using assms
proof (induction rs)
  case Nil
  then show ?case by simp
next
  case (Cons a rs)
  show ?case
  proof (cases "matchLoop ticket tt ts rs = Inr (Some r)")
    case True
    with Cons.IH show ?thesis by auto
  next
    case False
    from Cons.prems False obtain e where e: "getEligibleDrawDate (rechargeTime a) = Inr (Some e)"
      by (auto split: sum.splits option.splits)
    let ?s = "getBrazilDateString (Some e)"
    have s: "?s \<noteq> []" by (rule getBrazilDateString_nonempty)
    from Cons.prems False e have n: "normalizeDrawDate (drawDate ticket) = ?s"
      by (auto simp: Let_def split: if_splits)
    let ?ps = "filter (isPriorTicket ticket tt a) ts"
    from Cons.prems False e n s have ra: "r = a"
      by (auto simp: Let_def split: if_splits sum.splits)
    from Cons.prems False e n s have "?ps = [] \<or> rechargeUsedLoop ?s ?ps = Inr False"
      by (auto simp: Let_def split: if_splits sum.splits)
    then have "\<forall>t\<in>set ?ps. drawWindow (parsedDate t) \<noteq> ?s"
      using rechargeUsedLoop_False [OF _ s, of ?ps] by auto
    moreover have "drawWindow (rechargeTime a) = ?s" using e by (simp add: drawWindow_def)
    ultimately show ?thesis using ra e n by auto
  qed
qed

text \<open>
  C8. When \<open>findMatchingRecharge\<close> returns a recharge, it is one of the recharges passed
  in, its time is strictly earlier than the ticket's registration time, and its
  eligible draw date, printed as \<^verbatim>\<open>YYYY-MM-DD\<close>, is the ticket's draw date as
  normalised. The normalisation turns a date of three parts that starts with its day
  (\<^verbatim>\<open>DD/MM/YYYY\<close>) into year, month and day joined by \<^verbatim>\<open>-\<close>, with month and day
  padded to two digits, and keeps a date that starts with a four-character year.
\<close>

theorem findMatchingRecharge_postcondition:
  "(findMatchingRecharge ticket recharges allTickets = Inr (Some r)
      \<longrightarrow> r \<in> set recharges
          \<and> (\<exists>pd rt e. parsedDate ticket = Some pd \<and> rechargeTime r = Some rt
                \<and> getTime rt < getTime pd
                \<and> getEligibleDrawDate (Some rt) = Inr (Some e)
                \<and> getBrazilDateString (Some e) = normalizeDrawDate (drawDate ticket)))
   \<and> ((\<forall>c\<in>set d. \<not> isDateSeparator c) \<and> (\<forall>c\<in>set m. \<not> isDateSeparator c)
        \<and> (\<forall>c\<in>set y. \<not> isDateSeparator c) \<and> isDateSeparator s \<and> isDateSeparator t
      \<longrightarrow> (length d \<noteq> 4
            \<longrightarrow> normalizeDrawDate (d @ s # m @ t # y) = y @ ''-'' @ padStart2 m @ ''-'' @ padStart2 d)
          \<and> (length y = 4 \<longrightarrow> normalizeDrawDate (y @ s # m @ t # d) = y @ s # m @ t # d))"
proof (intro conjI impI)
  assume a: "findMatchingRecharge ticket recharges allTickets = Inr (Some r)"
  then obtain pd where pd: "parsedDate ticket = Some pd"
    by (auto simp: findMatchingRecharge_def split: option.splits)
  let ?el = "filter (isEligibleRecharge (getTime pd)) recharges"
  from a pd have "matchLoop ticket (getTime pd) allTickets (sort_key (\<lambda>r. - rechargeMillis r) ?el) = Inr (Some r)"
    by (auto simp: findMatchingRecharge_def Let_def split: if_splits)
  from matchLoop_Some [OF this] obtain e where
    r: "r \<in> set ?el" and e: "getEligibleDrawDate (rechargeTime r) = Inr (Some e)"
      "getBrazilDateString (Some e) = normalizeDrawDate (drawDate ticket)" by auto
  from r obtain rt where rt: "rechargeTime r = Some rt" "getTime rt < getTime pd"
    by (auto simp: isEligibleRecharge_def split: option.splits)
  from r show "r \<in> set recharges" by simp
  from pd rt e show "\<exists>pd rt e. parsedDate ticket = Some pd \<and> rechargeTime r = Some rt
                \<and> getTime rt < getTime pd
                \<and> getEligibleDrawDate (Some rt) = Inr (Some e)
                \<and> getBrazilDateString (Some e) = normalizeDrawDate (drawDate ticket)" by auto
next
  assume "(\<forall>c\<in>set d. \<not> isDateSeparator c) \<and> (\<forall>c\<in>set m. \<not> isDateSeparator c)
        \<and> (\<forall>c\<in>set y. \<not> isDateSeparator c) \<and> isDateSeparator s \<and> isDateSeparator t"
    and "length d \<noteq> 4"
  then show "normalizeDrawDate (d @ s # m @ t # y) = y @ ''-'' @ padStart2 m @ ''-'' @ padStart2 d"
    by (intro normalizeDrawDate_day_first) auto
next
  assume "(\<forall>c\<in>set d. \<not> isDateSeparator c) \<and> (\<forall>c\<in>set m. \<not> isDateSeparator c)
        \<and> (\<forall>c\<in>set y. \<not> isDateSeparator c) \<and> isDateSeparator s \<and> isDateSeparator t"
    and "length y = 4"
  then show "normalizeDrawDate (y @ s # m @ t # d) = y @ s # m @ t # d"
    by (intro normalizeDrawDate_year_first) auto
qed

theorem findMatchingRecharge_postcondition_witness:
  "findMatchingRecharge sampleTicket1 [sampleRecharge] [sampleTicket1, sampleTicket2]
     = Inr (Some sampleRecharge)
   \<and> (\<exists>pd rt e. parsedDate sampleTicket1 = Some pd \<and> rechargeTime sampleRecharge = Some rt
          \<and> getTime rt < getTime pd
          \<and> getEligibleDrawDate (Some rt) = Inr (Some e)
          \<and> getBrazilDateString (Some e) = normalizeDrawDate (drawDate sampleTicket1))
   \<and> normalizeDrawDate ''6/1/2025'' = ''2025-01-06''
   \<and> normalizeDrawDate ''2025-01-06'' = ''2025-01-06''"
proof -
  have run: "findMatchingRecharge sampleTicket1 [sampleRecharge] [sampleTicket1, sampleTicket2]
     = Inr (Some sampleRecharge)" by code_simp
  note day_first = findMatchingRecharge_postcondition
    [where ticket = sampleTicket1 and recharges = "[sampleRecharge]"
       and allTickets = "[sampleTicket1, sampleTicket2]" and r = sampleRecharge
       and d = "''6''" and m = "''1''" and y = "''2025''" and s = "CHR ''/''" and t = "CHR ''/''"]
  note year_first = findMatchingRecharge_postcondition
    [where ticket = sampleTicket1 and recharges = "[sampleRecharge]"
       and allTickets = "[sampleTicket1, sampleTicket2]" and r = sampleRecharge
       and d = "''06''" and m = "''01''" and y = "''2025''" and s = "CHR ''-''" and t = "CHR ''-''"]
  from day_first run
  have post: "\<exists>pd rt e. parsedDate sampleTicket1 = Some pd \<and> rechargeTime sampleRecharge = Some rt
          \<and> getTime rt < getTime pd
          \<and> getEligibleDrawDate (Some rt) = Inr (Some e)
          \<and> getBrazilDateString (Some e) = normalizeDrawDate (drawDate sampleTicket1)"
    by blast
  from day_first have n1: "normalizeDrawDate ''6/1/2025'' = ''2025-01-06''"
    by (simp add: isDateSeparator_def padStart2_def)
  from year_first have n2: "normalizeDrawDate ''2025-01-06'' = ''2025-01-06''"
    by (simp add: isDateSeparator_def)
  from run post n1 n2 show ?thesis by (intro conjI)
qed

section \<open>Properties of the ticket validator\<close>

text \<open>
  C6, as the program has it. A ticket whose upstream status, in upper case, is
  \<^verbatim>\<open>VALID\<close>, \<^verbatim>\<open>VALIDADO\<close> or \<^verbatim>\<open>VALIDATED\<close> is returned as \<open>VALID\<close> with the reason
  \<^verbatim>\<open>Pre-validated in source data\<close>, no matched recharge and no cutoff flag, and the
  matcher is not called: the result is the same for every matcher, also for one that
  throws on every call.
\<close>

theorem validateTicket_prevalidated:
  assumes "toUpperCase (status ticket) \<in> set preValidStatuses"
  shows "validateTicketWith matcher ticket rechargesByGameId ticketsByGameId
         = Inr \<lparr>vticket = ticket, vstatus = VALID, reason = ''Pre-validated in source data'',
                 matchedRecharge = None, isCutoff = False\<rparr>"
  using assms by (simp add: validateTicketWith_def Let_def)

theorem validateTicket_prevalidated_witness:
  "toUpperCase (status preValidatedTicket) \<in> set preValidStatuses
   \<and> validateTicketWith throwingMatcher preValidatedTicket Map.empty Map.empty
       = Inr \<lparr>vticket = preValidatedTicket, vstatus = VALID,
               reason = ''Pre-validated in source data'',
               matchedRecharge = None, isCutoff = False\<rparr>"
proof -
  have s: "toUpperCase (status preValidatedTicket) \<in> set preValidStatuses" by code_simp
  from s validateTicket_prevalidated [OF s, of throwingMatcher Map.empty Map.empty]
  show ?thesis by (intro conjI)
qed

text \<open>
  C6 as claimed fails in the reason text: for the ticket with status \<^verbatim>\<open>validado\<close> the
  reason is \<^verbatim>\<open>Pre-validated in source data\<close>, not \<^verbatim>\<open>pre-validated upstream\<close>.
\<close>

theorem validateTicket_prevalidated_reason_counterexample:
  "toUpperCase (status preValidatedTicket) \<in> set preValidStatuses
   \<and> validateTicket preValidatedTicket Map.empty Map.empty
       = Inr \<lparr>vticket = preValidatedTicket, vstatus = VALID,
               reason = ''Pre-validated in source data'',
               matchedRecharge = None, isCutoff = False\<rparr>
   \<and> ''Pre-validated in source data'' \<noteq> ''pre-validated upstream''"
proof -
  have s: "toUpperCase (status preValidatedTicket) \<in> set preValidStatuses" by code_simp
  then have "validateTicket preValidatedTicket Map.empty Map.empty
       = Inr \<lparr>vticket = preValidatedTicket, vstatus = VALID,
               reason = ''Pre-validated in source data'',
               matchedRecharge = None, isCutoff = False\<rparr>"
    by (simp add: validateTicket_def validateTicketWith_def Let_def)
  moreover have "''Pre-validated in source data'' \<noteq> ''pre-validated upstream''" by simp
  ultimately show ?thesis using s by (intro conjI)
qed

lemma getCutoffHour_noonOf [simp]: "getCutoffHour (noonOf d) = getCutoffHour d"
  by (simp add: getCutoffHour_def isEarlyCutoffDay_def noonOf_def)


lemma cutoffCheck_valid:
  assumes "parsedDate ticket = Some pd" and "minutes pd < 60"
  shows "cutoffCheck ticket = (getCutoffHour pd \<le> hours pd)"
  using assms by (simp add: cutoffCheck_def Let_def getBrazilDateString_nonempty)

lemma validateTicketWith_undecided:
  assumes "\<not> upstreamDecided ticket" and "gameId ticket \<noteq> []"
    and "rechargesByGameId (gameId ticket) = Some rs" and "rs \<noteq> []"
  shows "validateTicketWith matcher ticket rechargesByGameId ticketsByGameId
    = (case matcher ticket rs (case ticketsByGameId (gameId ticket) of None \<Rightarrow> [] | Some ts \<Rightarrow> ts) of
         Inl e \<Rightarrow> Inl e
       | Inr (Some matched) \<Rightarrow>
           Inr \<lparr>vticket = ticket, vstatus = VALID, reason = matchedReason matched,
                 matchedRecharge = Some matched, isCutoff = cutoffCheck ticket\<rparr>
       | Inr None \<Rightarrow>
           Inr \<lparr>vticket = ticket, vstatus = INVALID,
                 reason = ''Recharge exists but timing does not match draw window'',
                 matchedRecharge = None, isCutoff = cutoffCheck ticket\<rparr>)"
  using assms
  by (simp add: validateTicketWith_def upstreamDecided_def Let_def split: sum.splits option.splits)

lemma validateTicketWith_no_recharge:
  assumes "\<not> upstreamDecided ticket"
    and "gameId ticket = [] \<or> rechargesByGameId (gameId ticket) = None
         \<or> rechargesByGameId (gameId ticket) = Some []"
  shows "\<exists>v. validateTicketWith matcher ticket rechargesByGameId ticketsByGameId = Inr v
           \<and> vstatus v = INVALID \<and> matchedRecharge v = None \<and> \<not> isCutoff v"
  using assms
  by (auto simp: validateTicketWith_def upstreamDecided_def Let_def)

text \<open>
  C1, as the program has it. For a ticket that is not answered from its upstream
  status: without owner id, or without a recharge on record for its owner, the ticket
  is \<open>INVALID\<close> and its cutoff flag is false; with an owner id, at least one recharge of
  that owner and a registration date, the cutoff flag is true exactly when the
  registration hour is at or after the cutoff hour of the registration day, whatever
  the matcher answers, and \<open>validateTicket\<close> returns such an outcome when the dates of
  the owner's recharges and tickets are dates of the calendar.
\<close>

theorem validateTicket_cutoff_flag:
  assumes "\<not> upstreamDecided ticket"
  shows "(gameId ticket = [] \<or> rechargesByGameId (gameId ticket) = None
            \<or> rechargesByGameId (gameId ticket) = Some []
          \<longrightarrow> (\<exists>v. validateTicket ticket rechargesByGameId ticketsByGameId = Inr v
                   \<and> vstatus v = INVALID \<and> \<not> isCutoff v))
       \<and> (\<forall>rs pd. gameId ticket \<noteq> [] \<and> rechargesByGameId (gameId ticket) = Some rs \<and> rs \<noteq> []
              \<and> parsedDate ticket = Some pd \<and> valid_date pd
            \<longrightarrow> (\<forall>matcher v. validateTicketWith matcher ticket rechargesByGameId ticketsByGameId = Inr v
                     \<longrightarrow> isCutoff v = (getCutoffHour pd \<le> hours pd))
                \<and> ((\<forall>r\<in>set rs. rechargeDateOk r)
                     \<and> (\<forall>ts. ticketsByGameId (gameId ticket) = Some ts \<longrightarrow> (\<forall>t\<in>set ts. entryDateOk t))
                   \<longrightarrow> (\<exists>v. validateTicket ticket rechargesByGameId ticketsByGameId = Inr v
                            \<and> isCutoff v = (getCutoffHour pd \<le> hours pd))))"
proof (intro conjI allI impI)
  assume "gameId ticket = [] \<or> rechargesByGameId (gameId ticket) = None
            \<or> rechargesByGameId (gameId ticket) = Some []"
  from validateTicketWith_no_recharge
    [of ticket rechargesByGameId findMatchingRecharge ticketsByGameId, OF assms this]
  show "\<exists>v. validateTicket ticket rechargesByGameId ticketsByGameId = Inr v
                   \<and> vstatus v = INVALID \<and> \<not> isCutoff v"
    unfolding validateTicket_def by blast
next
  fix rs pd matcher v
  assume h: "gameId ticket \<noteq> [] \<and> rechargesByGameId (gameId ticket) = Some rs \<and> rs \<noteq> []
              \<and> parsedDate ticket = Some pd \<and> valid_date pd"
    and run: "validateTicketWith matcher ticket rechargesByGameId ticketsByGameId = Inr v"
  from h have c: "cutoffCheck ticket = (getCutoffHour pd \<le> hours pd)"
    by (intro cutoffCheck_valid) (auto simp: valid_date_def)
  from h have "validateTicketWith matcher ticket rechargesByGameId ticketsByGameId
    = (case matcher ticket rs (case ticketsByGameId (gameId ticket) of None \<Rightarrow> [] | Some ts \<Rightarrow> ts) of
         Inl e \<Rightarrow> Inl e
       | Inr (Some matched) \<Rightarrow>
           Inr \<lparr>vticket = ticket, vstatus = VALID, reason = matchedReason matched,
                 matchedRecharge = Some matched, isCutoff = cutoffCheck ticket\<rparr>
       | Inr None \<Rightarrow>
           Inr \<lparr>vticket = ticket, vstatus = INVALID,
                 reason = ''Recharge exists but timing does not match draw window'',
                 matchedRecharge = None, isCutoff = cutoffCheck ticket\<rparr>)"
    by (intro validateTicketWith_undecided assms) auto
  with run c show "isCutoff v = (getCutoffHour pd \<le> hours pd)"
    by (auto split: sum.splits option.splits)
next
  fix rs pd
  assume h: "gameId ticket \<noteq> [] \<and> rechargesByGameId (gameId ticket) = Some rs \<and> rs \<noteq> []
              \<and> parsedDate ticket = Some pd \<and> valid_date pd"
    and ok: "(\<forall>r\<in>set rs. rechargeDateOk r)
               \<and> (\<forall>ts. ticketsByGameId (gameId ticket) = Some ts \<longrightarrow> (\<forall>t\<in>set ts. entryDateOk t))"
  let ?ts = "case ticketsByGameId (gameId ticket) of None \<Rightarrow> [] | Some ts \<Rightarrow> ts"
  from h have c: "cutoffCheck ticket = (getCutoffHour pd \<le> hours pd)"
    by (intro cutoffCheck_valid) (auto simp: valid_date_def)
  have "\<forall>t\<in>set ?ts. entryDateOk t"
    using ok by (cases "ticketsByGameId (gameId ticket)") auto
  with ok obtain m where m: "findMatchingRecharge ticket rs ?ts = Inr m"
    using findMatchingRecharge_total [of rs ?ts ticket] by blast
  from h have "validateTicketWith findMatchingRecharge ticket rechargesByGameId ticketsByGameId
    = (case findMatchingRecharge ticket rs ?ts of
         Inl e \<Rightarrow> Inl e
       | Inr (Some matched) \<Rightarrow>
           Inr \<lparr>vticket = ticket, vstatus = VALID, reason = matchedReason matched,
                 matchedRecharge = Some matched, isCutoff = cutoffCheck ticket\<rparr>
       | Inr None \<Rightarrow>
           Inr \<lparr>vticket = ticket, vstatus = INVALID,
                 reason = ''Recharge exists but timing does not match draw window'',
                 matchedRecharge = None, isCutoff = cutoffCheck ticket\<rparr>)"
    by (intro validateTicketWith_undecided assms) auto
  with m c show "\<exists>v. validateTicket ticket rechargesByGameId ticketsByGameId = Inr v
                            \<and> isCutoff v = (getCutoffHour pd \<le> hours pd)"
    unfolding validateTicket_def by (cases m) auto
qed

theorem validateTicket_cutoff_flag_witness:
  "\<not> upstreamDecided lateTicket
   \<and> (\<exists>v. validateTicket lateTicket Map.empty Map.empty = Inr v
          \<and> vstatus v = INVALID \<and> \<not> isCutoff v)
   \<and> \<not> upstreamDecided lateFundedTicket
   \<and> parsedDate lateFundedTicket = Some mondayAt21
   \<and> (\<exists>v. validateTicket lateFundedTicket [''G1'' \<mapsto> [sampleRecharge]]
               [''G1'' \<mapsto> [lateFundedTicket]] = Inr v
          \<and> isCutoff v = (getCutoffHour mondayAt21 \<le> hours mondayAt21))
   \<and> getCutoffHour mondayAt21 \<le> hours mondayAt21"
proof -
  have u1: "\<not> upstreamDecided lateTicket" by code_simp
  have u2: "\<not> upstreamDecided lateFundedTicket" by code_simp
  have g: "gameId lateFundedTicket = ''G1''" by code_simp
  have pd: "parsedDate lateFundedTicket = Some mondayAt21" by code_simp
  have v: "valid_date mondayAt21" by code_simp
  have rok: "rechargeDateOk sampleRecharge" by code_simp
  have eok: "entryDateOk lateFundedTicket" by code_simp
  have late: "getCutoffHour mondayAt21 \<le> hours mondayAt21" by code_simp
  note unfunded = validateTicket_cutoff_flag [OF u1, of Map.empty Map.empty]
  note funded = validateTicket_cutoff_flag
    [OF u2, of "[''G1'' \<mapsto> [sampleRecharge]]" "[''G1'' \<mapsto> [lateFundedTicket]]"]
  from unfunded have a: "\<exists>v. validateTicket lateTicket Map.empty Map.empty = Inr v
          \<and> vstatus v = INVALID \<and> \<not> isCutoff v" by simp
  from funded g pd v rok eok
  have b: "\<exists>v. validateTicket lateFundedTicket [''G1'' \<mapsto> [sampleRecharge]]
               [''G1'' \<mapsto> [lateFundedTicket]] = Inr v
          \<and> isCutoff v = (getCutoffHour mondayAt21 \<le> hours mondayAt21)"
    by simp
  from u1 a u2 pd b late show ?thesis by (intro conjI)
qed

text \<open>
  C1 as claimed fails where the owner has no recharge: the ticket registered on Monday
  6 January 2025 at 21:00, after the cutoff hour 20 of that day, is returned with the
  cutoff flag false.
\<close>

theorem validateTicket_cutoff_flag_counterexample:
  "\<not> upstreamDecided lateTicket
   \<and> parsedDate lateTicket
       = Some \<lparr>year = 2025, month = 0, mday = 6, hours = 21, minutes = 0, seconds = 0, millis = 0\<rparr>
   \<and> getCutoffHour \<lparr>year = 2025, month = 0, mday = 6, hours = 21, minutes = 0, seconds = 0, millis = 0\<rparr> = 20
   \<and> validateTicket lateTicket Map.empty Map.empty
       = Inr \<lparr>vticket = lateTicket, vstatus = INVALID,
               reason = ''No recharge found for Game ID: G2'',
               matchedRecharge = None, isCutoff = False\<rparr>"
  by code_simp










lemma validateTicketWith_vticket:
  "validateTicketWith matcher ticket rm tm = Inr v \<Longrightarrow> vticket v = ticket"
  by (auto simp: validateTicketWith_def Let_def split: if_splits sum.splits option.splits)

lemma countValidation_sum:
  "valid (countValidation v st) + invalid (countValidation v st) + unknown (countValidation v st)
     = valid st + invalid st + unknown st + 1"
  "total (countValidation v st) = total st"
  by (cases "vstatus v"; simp add: countValidation_def Let_def)+

lemma validateBatch_append:
  "validateBatch rm tm (xs @ ys) acc
     = (case validateBatch rm tm xs acc of Inl e \<Rightarrow> Inl e | Inr acc' \<Rightarrow> validateBatch rm tm ys acc')"
  by (induction xs arbitrary: acc) (auto split: sum.splits)

lemma validateBatches_unbatched:
  "validateBatches rm tm entries i acc = validateBatch rm tm (drop i entries) acc"
proof (induction rm tm entries i acc rule: validateBatches.induct)
  case (1 rm tm entries i acc)
  show ?case
  proof (cases "i < length entries")
    case False
    then show ?thesis by (subst validateBatches.simps) simp
  next
    case True
    have split: "drop i entries
        = take validationBatchSize (drop i entries) @ drop (i + validationBatchSize) entries"
      using append_take_drop_id [of validationBatchSize "drop i entries"]
      by (simp add: add.commute)
    show ?thesis
    proof (cases "validateBatch rm tm (take validationBatchSize (drop i entries)) acc")
      case (Inl e)
      have "validateBatch rm tm (drop i entries) acc = Inl e"
        by (subst split, subst validateBatch_append) (simp add: Inl)
      moreover have "validateBatches rm tm entries i acc = Inl e"
        using True Inl by (subst validateBatches.simps) simp
      ultimately show ?thesis by simp
    next
      case (Inr acc')
      have "validateBatch rm tm (drop i entries) acc
            = validateBatch rm tm (drop (i + validationBatchSize) entries) acc'"
        by (subst split, subst validateBatch_append) (simp add: Inr)
      moreover have "validateBatches rm tm entries i acc
            = validateBatches rm tm entries (i + validationBatchSize) acc'"
        using True Inr by (subst validateBatches.simps) simp
      ultimately show ?thesis using "1.IH" [OF True Inr] by simp
    qed
  qed
qed

lemma validateBatch_shape:
  assumes "validateBatch rm tm batch acc = Inr acc'"
  shows "map vticket (fst acc') = map vticket (fst acc) @ batch
       \<and> valid (snd acc') + invalid (snd acc') + unknown (snd acc')
           = valid (snd acc) + invalid (snd acc) + unknown (snd acc) + length batch
       \<and> total (snd acc') = total (snd acc)"
  using assms
proof (induction batch arbitrary: acc)
  case Nil
  then show ?case by simp
next
  case (Cons e batch)
  from Cons.prems obtain v where v: "validateTicket e rm tm = Inr v"
    and rest: "validateBatch rm tm batch (fst acc @ [v], countValidation v (snd acc)) = Inr acc'"
    by (auto split: sum.splits)
  from v have "vticket v = e" unfolding validateTicket_def by (rule validateTicketWith_vticket)
  with Cons.IH [OF rest] show ?case by (simp add: countValidation_sum)
qed

lemma pushByKey_subset:
  assumes "pushByKey key m x = Inr m'" and "\<forall>k ys. m k = Some ys \<longrightarrow> set ys \<subseteq> S" and "x \<in> S"
  shows "\<forall>k ys. m' k = Some ys \<longrightarrow> set ys \<subseteq> S"
proof (intro allI impI)
  fix k ys assume p: "m' k = Some ys"
  show "set ys \<subseteq> S"
  proof (cases "key x = [] \<or> k \<noteq> key x")
    case True
    with assms(1) p have "m k = Some ys"
      by (auto simp: pushByKey_def split: if_splits option.splits)
    with assms(2) show ?thesis by blast
  next
    case False
    show ?thesis
    proof (cases "m (key x)")
      case None
      with False assms(1) p have "ys = [x]" by (auto simp: pushByKey_def split: if_splits)
      with assms(3) show ?thesis by simp
    next
      case (Some old)
      with False assms(1) p have "ys = old @ [x]" by (auto simp: pushByKey_def)
      moreover from Some assms(2) have "set old \<subseteq> S" by blast
      ultimately show ?thesis using assms(3) by simp
    qed
  qed
qed

lemma groupByKeyFrom_subset:
  assumes "groupByKeyFrom key m xs = Inr m'" and "\<forall>k ys. m k = Some ys \<longrightarrow> set ys \<subseteq> S"
    and "set xs \<subseteq> S"
  shows "\<forall>k ys. m' k = Some ys \<longrightarrow> set ys \<subseteq> S"
  using assms
proof (induction xs arbitrary: m)
  case Nil
  then show ?case by simp
next
  case (Cons x xs)
  from Cons.prems(1) obtain m1 where m1: "pushByKey key m x = Inr m1"
    and rest: "groupByKeyFrom key m1 xs = Inr m'"
    by (auto split: sum.splits)
  have "\<forall>k ys. m1 k = Some ys \<longrightarrow> set ys \<subseteq> S"
    by (rule pushByKey_subset [OF m1 Cons.prems(2)]) (use Cons.prems(3) in simp)
  from Cons.IH [OF rest this] Cons.prems(3) show ?case by simp
qed

lemma groupByKey_subset:
  assumes "groupByKey key xs = Inr m" and "m k = Some ys"
  shows "set ys \<subseteq> set xs"
  using groupByKeyFrom_subset [of key Map.empty xs m "set xs"] assms
  by (auto simp: groupByKey_def)

lemma groupByKeyFrom_total:
  assumes "\<forall>x\<in>set xs. key x \<notin> set objectPrototypeKeys"
  shows "\<exists>m'. groupByKeyFrom key m xs = Inr m'"
  using assms
proof (induction xs arbitrary: m)
  case Nil
  show ?case by simp
next
  case (Cons x xs)
  from Cons.prems have "\<exists>m1. pushByKey key m x = Inr m1"
    by (cases "m (key x)") (simp_all add: pushByKey_def)
  then obtain m1 where "pushByKey key m x = Inr m1" by (elim exE)
  moreover from Cons.IH [of m1] Cons.prems obtain m' where "groupByKeyFrom key m1 xs = Inr m'"
    by auto
  ultimately have "groupByKeyFrom key m (x # xs) = Inr m'" by simp
  then show ?case by blast
qed

lemma groupByKeyFrom_throws:
  assumes "\<exists>x\<in>set xs. key x \<in> set objectPrototypeKeys"
    and "\<forall>k\<in>set objectPrototypeKeys. m k = None"
  shows "groupByKeyFrom key m xs = Inl (TypeError ''push is not a function'')"
  using assms
proof (induction xs arbitrary: m)
  case Nil
  then show ?case by simp
next
  case (Cons x xs)
  show ?case
  proof (cases "key x \<in> set objectPrototypeKeys")
    case True
    then have "key x \<noteq> []" by (auto simp: objectPrototypeKeys_def)
    moreover from True Cons.prems(2) have "m (key x) = None" by blast
    ultimately have "pushByKey key m x = Inl (TypeError ''push is not a function'')"
      using True by (simp add: pushByKey_def)
    then show ?thesis by simp
  next
    case False
    define m1 where
      "m1 = (if key x = [] then m
             else m(key x \<mapsto> (case m (key x) of None \<Rightarrow> [] | Some xs \<Rightarrow> xs) @ [x]))"
    have m1: "pushByKey key m x = Inr m1"
      using False by (cases "m (key x)") (auto simp: pushByKey_def m1_def)
    have own: "\<forall>k\<in>set objectPrototypeKeys. m1 k = m k"
      using False by (auto simp: m1_def)
    from False Cons.prems(1) have "\<exists>x\<in>set xs. key x \<in> set objectPrototypeKeys" by auto
    moreover from own Cons.prems(2) have "\<forall>k\<in>set objectPrototypeKeys. m1 k = None" by simp
    ultimately have "groupByKeyFrom key m1 xs = Inl (TypeError ''push is not a function'')"
      by (rule Cons.IH)
    with m1 show ?thesis by simp
  qed
qed

lemma validateTicket_total:
  assumes "\<forall>k rs. rm k = Some rs \<longrightarrow> (\<forall>r\<in>set rs. rechargeDateOk r)"
    and "\<forall>k ts. tm k = Some ts \<longrightarrow> (\<forall>t\<in>set ts. entryDateOk t)"
  shows "\<exists>v. validateTicket e rm tm = Inr v"
proof -
  let ?rs = "case rm (gameId e) of None \<Rightarrow> [] | Some rs \<Rightarrow> rs"
  let ?ts = "case tm (gameId e) of None \<Rightarrow> [] | Some ts \<Rightarrow> ts"
  have "\<forall>r\<in>set ?rs. rechargeDateOk r" using assms(1) by (cases "rm (gameId e)") auto
  moreover have "\<forall>t\<in>set ?ts. entryDateOk t" using assms(2) by (cases "tm (gameId e)") auto
  ultimately obtain m where "findMatchingRecharge e ?rs ?ts = Inr m"
    using findMatchingRecharge_total [of ?rs ?ts e] by blast
  then show ?thesis
    by (cases m) (auto simp: validateTicket_def validateTicketWith_def Let_def)
qed

lemma validateBatch_total:
  assumes "\<forall>k rs. rm k = Some rs \<longrightarrow> (\<forall>r\<in>set rs. rechargeDateOk r)"
    and "\<forall>k ts. tm k = Some ts \<longrightarrow> (\<forall>t\<in>set ts. entryDateOk t)"
  shows "\<exists>acc'. validateBatch rm tm batch acc = Inr acc'"
proof (induction batch arbitrary: acc)
  case Nil
  have "validateBatch rm tm [] acc = Inr acc" by simp
  then show ?case ..
next
  case (Cons e batch)
  from validateTicket_total [OF assms, of e] obtain v where "validateTicket e rm tm = Inr v" ..
  with Cons.IH [of "(fst acc @ [v], countValidation v (snd acc))"] show ?case by simp
qed

lemma computeValidation_shape:
  assumes "computeValidation entries recharges = Inr res"
  shows "map vticket (results res) = entries
       \<and> valid (stats res) + invalid (stats res) + unknown (stats res) = total (stats res)
       \<and> total (stats res) = length entries"
proof -
  let ?st = "\<lparr>total = length entries, valid = 0, invalid = 0, unknown = 0, cutoff = 0\<rparr>"
  from assms obtain rm tm acc where acc: "validateBatches rm tm entries 0 ([], ?st) = Inr acc"
    and res: "res = \<lparr>results = fst acc, stats = snd acc, rechargeCount = length recharges\<rparr>"
    by (auto simp: computeValidation_def Let_def split: sum.splits)
  from acc have "validateBatch rm tm entries ([], ?st) = Inr acc"
    by (simp add: validateBatches_unbatched)
  from validateBatch_shape [OF this] res show ?thesis by simp
qed

lemma computeValidation_total:
  assumes "\<forall>e\<in>set entries. entryDateOk e" and "\<forall>r\<in>set recharges. rechargeDateOk r"
    and "\<forall>e\<in>set entries. gameId e \<notin> set objectPrototypeKeys"
    and "\<forall>r\<in>set recharges. rechargeGameId r \<notin> set objectPrototypeKeys"
  shows "\<exists>res. computeValidation entries recharges = Inr res"
proof -
  from groupByKeyFrom_total [OF assms(4), of Map.empty] obtain rm
    where rm: "groupByKey rechargeGameId recharges = Inr rm" by (auto simp: groupByKey_def)
  from groupByKeyFrom_total [OF assms(3), of Map.empty] obtain tm
    where tm: "groupByKey gameId entries = Inr tm" by (auto simp: groupByKey_def)
  have a: "\<forall>k rs. rm k = Some rs \<longrightarrow> (\<forall>r\<in>set rs. rechargeDateOk r)"
    using assms(2) groupByKey_subset [OF rm] by blast
  have b: "\<forall>k ts. tm k = Some ts \<longrightarrow> (\<forall>t\<in>set ts. entryDateOk t)"
    using assms(1) groupByKey_subset [OF tm] by blast
  from validateBatch_total [OF a b] obtain acc where
    "validateBatch rm tm entries
       ([], \<lparr>total = length entries, valid = 0, invalid = 0, unknown = 0, cutoff = 0\<rparr>) = Inr acc"
    by blast
  then show ?thesis by (simp add: computeValidation_def Let_def validateBatches_unbatched rm tm)
qed

lemma computeValidation_throws:
  assumes "(\<exists>e\<in>set entries. gameId e \<in> set objectPrototypeKeys)
         \<or> (\<exists>r\<in>set recharges. rechargeGameId r \<in> set objectPrototypeKeys)"
  shows "computeValidation entries recharges = Inl (TypeError ''push is not a function'')"
proof (cases "\<exists>r\<in>set recharges. rechargeGameId r \<in> set objectPrototypeKeys")
  case True
  then have "groupByKey rechargeGameId recharges = Inl (TypeError ''push is not a function'')"
    unfolding groupByKey_def by (rule groupByKeyFrom_throws) simp
  then show ?thesis by (simp add: computeValidation_def)
next
  case False
  then have "\<forall>r\<in>set recharges. rechargeGameId r \<notin> set objectPrototypeKeys" by simp
  from groupByKeyFrom_total [OF this, of Map.empty] obtain rm
    where rm: "groupByKey rechargeGameId recharges = Inr rm" by (auto simp: groupByKey_def)
  from False assms have "\<exists>e\<in>set entries. gameId e \<in> set objectPrototypeKeys" by simp
  then have "groupByKey gameId entries = Inl (TypeError ''push is not a function'')"
    unfolding groupByKey_def by (rule groupByKeyFrom_throws) simp
  with rm show ?thesis by (simp add: computeValidation_def)
qed

text \<open>
  C9. Whenever \<open>validateAllTickets\<close> returns, its list of results has one outcome per
  entry, in the order of the entries, and its statistics satisfy
  \<open>valid + invalid + unknown = total = number of entries\<close>. The loop over batches of 50
  computes what one pass over all entries computes. When the dates of all entries and
  recharges are dates of the calendar and the cache does not hold the object of
  counters (or is skipped), the function returns exactly when no game id of an entry
  or a recharge names a member of \<^verbatim>\<open>Object.prototype\<close>; with such a game id the grouping
  throws and nothing is returned.
\<close>

theorem validateAllTickets_shape:
  "(validateAllTickets c entries recharges skipCache = Inr (res, c')
      \<longrightarrow> length (results res) = length entries
          \<and> map vticket (results res) = entries
          \<and> valid (stats res) + invalid (stats res) + unknown (stats res) = total (stats res)
          \<and> total (stats res) = length entries)
   \<and> validateBatches rm tm entries 0 acc = validateBatch rm tm entries acc
   \<and> ((\<forall>e\<in>set entries. entryDateOk e) \<and> (\<forall>r\<in>set recharges. rechargeDateOk r)
        \<and> (skipCache \<or> (\<forall>v i u. getCachedValidation c \<noteq> Some (CachedCounts v i u)))
      \<longrightarrow> ((\<exists>res c'. validateAllTickets c entries recharges skipCache = Inr (res, c'))
            \<longleftrightarrow> (\<forall>e\<in>set entries. gameId e \<notin> set objectPrototypeKeys)
                \<and> (\<forall>r\<in>set recharges. rechargeGameId r \<notin> set objectPrototypeKeys)))"
proof (intro conjI impI)
  assume run: "validateAllTickets c entries recharges skipCache = Inr (res, c')"
  then have "computeValidation entries recharges = Inr res"
    by (auto simp: validateAllTickets_def Let_def
             split: if_splits sum.splits option.splits cachedValidation.splits)
  from computeValidation_shape [OF this]
  have s: "map vticket (results res) = entries"
    "valid (stats res) + invalid (stats res) + unknown (stats res) = total (stats res)"
    "total (stats res) = length entries" by simp_all
  from s(1) have "length (map vticket (results res)) = length entries" by simp
  then show "length (results res) = length entries" by simp
  from s show "map vticket (results res) = entries"
    "valid (stats res) + invalid (stats res) + unknown (stats res) = total (stats res)"
    "total (stats res) = length entries" by simp_all
next
  show "validateBatches rm tm entries 0 acc = validateBatch rm tm entries acc"
    by (simp add: validateBatches_unbatched)
next
  assume h: "(\<forall>e\<in>set entries. entryDateOk e) \<and> (\<forall>r\<in>set recharges. rechargeDateOk r)
        \<and> (skipCache \<or> (\<forall>v i u. getCachedValidation c \<noteq> Some (CachedCounts v i u)))"
  have run: "validateAllTickets c entries recharges skipCache
      = (case computeValidation entries recharges of
           Inl err \<Rightarrow> Inl err
         | Inr r \<Rightarrow> Inr (r, setCachedValidation c (CachedResults r)))"
    using h by (auto simp: validateAllTickets_def Let_def split: option.splits cachedValidation.splits)
  show "(\<exists>res c'. validateAllTickets c entries recharges skipCache = Inr (res, c'))
            \<longleftrightarrow> (\<forall>e\<in>set entries. gameId e \<notin> set objectPrototypeKeys)
                \<and> (\<forall>r\<in>set recharges. rechargeGameId r \<notin> set objectPrototypeKeys)"
  proof
    assume "\<exists>res c'. validateAllTickets c entries recharges skipCache = Inr (res, c')"
    then obtain res where ok: "computeValidation entries recharges = Inr res"
      unfolding run by (auto split: sum.splits)
    show "(\<forall>e\<in>set entries. gameId e \<notin> set objectPrototypeKeys)
                \<and> (\<forall>r\<in>set recharges. rechargeGameId r \<notin> set objectPrototypeKeys)"
    proof (rule ccontr)
      assume "\<not> ((\<forall>e\<in>set entries. gameId e \<notin> set objectPrototypeKeys)
                \<and> (\<forall>r\<in>set recharges. rechargeGameId r \<notin> set objectPrototypeKeys))"
      then have "(\<exists>e\<in>set entries. gameId e \<in> set objectPrototypeKeys)
         \<or> (\<exists>r\<in>set recharges. rechargeGameId r \<in> set objectPrototypeKeys)" by blast
      from computeValidation_throws [OF this] ok show False by simp
    qed
  next
    assume "(\<forall>e\<in>set entries. gameId e \<notin> set objectPrototypeKeys)
                \<and> (\<forall>r\<in>set recharges. rechargeGameId r \<notin> set objectPrototypeKeys)"
    with h obtain res where "computeValidation entries recharges = Inr res"
      using computeValidation_total [of entries recharges] by blast
    then show "\<exists>res c'. validateAllTickets c entries recharges skipCache = Inr (res, c')"
      unfolding run by simp
  qed
qed

theorem validateAllTickets_shape_witness:
  "(\<exists>res c'. validateAllTickets emptyCache sampleEntries [sampleRecharge] False = Inr (res, c')
       \<and> length (results res) = length sampleEntries
       \<and> map vticket (results res) = sampleEntries
       \<and> valid (stats res) + invalid (stats res) + unknown (stats res) = total (stats res)
       \<and> total (stats res) = length sampleEntries)
   \<and> map_sum id (\<lambda>p. (map vstatus (results (fst p)), stats (fst p)))
        (validateAllTickets emptyCache sampleEntries [sampleRecharge] False)
       = Inr ([VALID, INVALID, INVALID],
              \<lparr>total = 3, valid = 1, invalid = 2, unknown = 0, cutoff = 0\<rparr>)
   \<and> map_sum id fst (validateAllTickets emptyCache [sampleTicket1, prototypeTicket] [sampleRecharge] False)
       = Inl (TypeError ''push is not a function'')"
proof -
  have e: "\<forall>e\<in>set sampleEntries. entryDateOk e" by code_simp
  have r: "\<forall>r\<in>set [sampleRecharge]. rechargeDateOk r" by code_simp
  have k: "\<forall>e\<in>set sampleEntries. gameId e \<notin> set objectPrototypeKeys"
    "\<forall>r\<in>set [sampleRecharge]. rechargeGameId r \<notin> set objectPrototypeKeys" by code_simp+
  have c: "\<forall>v i u. getCachedValidation emptyCache \<noteq> Some (CachedCounts v i u)"
    by (simp add: getCachedValidation_def emptyCache_def)
  note shape = validateAllTickets_shape
    [where c = emptyCache and entries = sampleEntries and recharges = "[sampleRecharge]"
       and skipCache = False]
  from shape e r c k obtain res c'
    where run: "validateAllTickets emptyCache sampleEntries [sampleRecharge] False = Inr (res, c')"
    by blast
  from shape [of res c'] run
  have "length (results res) = length sampleEntries
       \<and> map vticket (results res) = sampleEntries
       \<and> valid (stats res) + invalid (stats res) + unknown (stats res) = total (stats res)
       \<and> total (stats res) = length sampleEntries" by blast
  with run have first: "\<exists>res c'. validateAllTickets emptyCache sampleEntries [sampleRecharge] False = Inr (res, c')
       \<and> length (results res) = length sampleEntries
       \<and> map vticket (results res) = sampleEntries
       \<and> valid (stats res) + invalid (stats res) + unknown (stats res) = total (stats res)
       \<and> total (stats res) = length sampleEntries" by blast
  have second: "map_sum id (\<lambda>p. (map vstatus (results (fst p)), stats (fst p)))
        (validateAllTickets emptyCache sampleEntries [sampleRecharge] False)
       = Inr ([VALID, INVALID, INVALID],
              \<lparr>total = 3, valid = 1, invalid = 2, unknown = 0, cutoff = 0\<rparr>)"
    by code_simp
  have third: "map_sum id fst (validateAllTickets emptyCache [sampleTicket1, prototypeTicket] [sampleRecharge] False)
       = Inl (TypeError ''push is not a function'')"
    by code_simp
  from first second third show ?thesis by (intro conjI)
qed

section \<open>Properties of the winner calculation\<close>

lemma scoreEntry_scoreOf:
  "scoreEntry winning acc e =
     (case scoreOf winning e of
        None \<Rightarrow> acc
      | Some w \<Rightarrow>
          (if qualifies w then fst acc @ [w] else fst acc,
           case snd acc (matches w) of
             Some bucket \<Rightarrow> (snd acc)(matches w \<mapsto> bucket @ [w])
           | None \<Rightarrow> snd acc))"
  by (cases acc)
     (auto simp: scoreEntry_def scoreOf_def qualifies_def Let_def split: option.splits)

lemma scoresOf_Nil [simp]: "scoresOf winning [] = []"
  by (simp add: scoresOf_def)

lemma scoresOf_Cons:
  "scoresOf winning (e # es)
     = (case scoreOf winning e of None \<Rightarrow> scoresOf winning es | Some w \<Rightarrow> w # scoresOf winning es)"
  by (simp add: scoresOf_def split: option.splits)

lemma foldl_scoreEntry:
  "fst (foldl (scoreEntry winning) acc es) = fst acc @ filter qualifies (scoresOf winning es)
   \<and> (\<forall>k. snd (foldl (scoreEntry winning) acc es) k
          = (case snd acc k of
               None \<Rightarrow> None
             | Some bucket \<Rightarrow> Some (bucket @ filter (\<lambda>w. matches w = k) (scoresOf winning es))))"
proof (induction es arbitrary: acc)
  case Nil
  then show ?case by (auto split: option.splits)
next
  case (Cons e es)
  show ?case
  proof (cases "scoreOf winning e")
    case None
    have step: "scoreEntry winning acc e = acc" by (simp add: scoreEntry_scoreOf None)
    have sc: "scoresOf winning (e # es) = scoresOf winning es" by (simp add: scoresOf_Cons None)
    from Cons.IH [of acc] show ?thesis unfolding sc by (simp add: step)
  next
    case (Some w)
    let ?acc' = "(if qualifies w then fst acc @ [w] else fst acc,
           case snd acc (matches w) of
             Some bucket \<Rightarrow> (snd acc)(matches w \<mapsto> bucket @ [w])
           | None \<Rightarrow> snd acc)"
    have step: "scoreEntry winning acc e = ?acc'" by (simp add: scoreEntry_scoreOf Some)
    have "snd ?acc' k = (case snd acc k of None \<Rightarrow> None
            | Some bucket \<Rightarrow> Some (bucket @ filter (\<lambda>w. matches w = k) [w]))" for k
      by (auto split: option.splits)
    have sc: "scoresOf winning (e # es) = w # scoresOf winning es" by (simp add: scoresOf_Cons Some)
    have k: "snd ?acc' k = (case snd acc k of None \<Rightarrow> None
            | Some bucket \<Rightarrow> Some (bucket @ filter (\<lambda>w. matches w = k) [w]))" for k
      by (auto split: option.splits)
    from Cons.IH [of ?acc'] have
      a: "fst (foldl (scoreEntry winning) ?acc' es) = fst ?acc' @ filter qualifies (scoresOf winning es)"
      and b: "\<And>k. snd (foldl (scoreEntry winning) ?acc' es) k
          = (case snd ?acc' k of
               None \<Rightarrow> None
             | Some bucket \<Rightarrow> Some (bucket @ filter (\<lambda>w. matches w = k) (scoresOf winning es)))"
      by blast+
    have f: "foldl (scoreEntry winning) acc (e # es) = foldl (scoreEntry winning) ?acc' es"
      by (simp add: step)
    have one: "fst (foldl (scoreEntry winning) acc (e # es))
        = fst acc @ filter qualifies (scoresOf winning (e # es))"
      unfolding f a sc by simp
    have two: "snd (foldl (scoreEntry winning) acc (e # es)) k
          = (case snd acc k of
               None \<Rightarrow> None
             | Some bucket \<Rightarrow> Some (bucket @ filter (\<lambda>w. matches w = k) (scoresOf winning (e # es))))" for k
      unfolding f b k sc by (cases "snd acc k") simp_all
    from one two show ?thesis by blast
  qed
qed

lemma emptyTiers_lookup:
  "emptyTiers k = (if k \<in> {1, 2, 3, 4, 5} then Some [] else None)"
  by (auto simp: emptyTiers_def)

lemma scored_winners:
  "fst (foldl (scoreEntry winning) ([], emptyTiers) es) = filter qualifies (scoresOf winning es)"
  using foldl_scoreEntry [of winning "([], emptyTiers)" es] by simp

lemma scored_tiers:
  "snd (foldl (scoreEntry winning) ([], emptyTiers) es) k
     = (if k \<in> {1, 2, 3, 4, 5} then Some (filter (\<lambda>w. matches w = k) (scoresOf winning es)) else None)"
  using foldl_scoreEntry [of winning "([], emptyTiers)" es] by (simp add: emptyTiers_lookup)

lemma winningTierFrom_5:
  "winningTierFrom tiers 5
     = (if validInTier tiers 5 \<noteq> [] then 5
        else if validInTier tiers 4 \<noteq> [] then 4
        else if validInTier tiers 3 \<noteq> [] then 3
        else 0)"
proof -
  have two: "winningTierFrom tiers 2 = 0"
    by (subst winningTierFrom.simps) (simp add: MIN_MATCHES_TO_WIN_def)
  have three: "winningTierFrom tiers 3 = (if validInTier tiers 3 \<noteq> [] then 3 else 0)"
    by (subst winningTierFrom.simps) (simp add: MIN_MATCHES_TO_WIN_def two)
  have four: "winningTierFrom tiers 4
      = (if validInTier tiers 4 \<noteq> [] then 4 else winningTierFrom tiers 3)"
    by (subst winningTierFrom.simps) (simp add: MIN_MATCHES_TO_WIN_def)
  have five: "winningTierFrom tiers 5
      = (if validInTier tiers 5 \<noteq> [] then 5 else winningTierFrom tiers 4)"
    by (subst winningTierFrom.simps) (simp add: MIN_MATCHES_TO_WIN_def)
  show ?thesis by (simp add: five four three)
qed

lemma calculateContestWinners_drawn:
  assumes "wellFormedResult r"
  shows "hasResult (calculateContestWinners es (Some r) pf cid)"
    and "totalEntries (calculateContestWinners es (Some r) pf cid) = Some (length es)"
    and "winners (calculateContestWinners es (Some r) pf cid)
         = sort_key (\<lambda>w. - int (matches w)) (filter qualifies (scoresOf (resultNumbers r) es))"
    and "byTier (calculateContestWinners es (Some r) pf cid) k
         = (if k \<in> {1, 2, 3, 4, 5}
            then Some (filter (\<lambda>w. matches w = k) (scoresOf (resultNumbers r) es)) else None)"
    and "winningTier (calculateContestWinners es (Some r) pf cid)
         = winningTierFrom (byTier (calculateContestWinners es (Some r) pf cid)) 5"
    and "prizePool (calculateContestWinners es (Some r) pf cid) = getPrizePool pf"
  using assms
  by (simp_all add: calculateContestWinners_def wellFormedResult_def Let_def scored_winners scored_tiers)

lemma calculateContestWinners_prize:
  assumes "wellFormedResult r"
  shows "prizePerWinner (calculateContestWinners es (Some r) pf cid)
         = (let cw = calculateContestWinners es (Some r) pf cid;
                tierWinners = validInTier (byTier cw) (winningTier cw)
            in if winningTier cw > 0 \<and> tierWinners \<noteq> []
               then prizePool cw / of_nat (length tierWinners) else 0)"
    and "totalPrizeAwarded (calculateContestWinners es (Some r) pf cid)
         = (let cw = calculateContestWinners es (Some r) pf cid;
                tierWinners = validInTier (byTier cw) (winningTier cw)
            in Some (if winningTier cw > 0 \<and> tierWinners \<noteq> [] then prizePool cw else 0))"
  using assms
  by (simp_all add: calculateContestWinners_def wellFormedResult_def Let_def)

lemma winningTier_properties:
  fixes es :: "entry list" and pf :: string and cid :: "string option"
  assumes "wellFormedResult r"
  defines "cw \<equiv> calculateContestWinners es (Some r) pf cid"
  shows "winningTier cw
         = (if validInTier (byTier cw) 5 \<noteq> [] then 5
            else if validInTier (byTier cw) 4 \<noteq> [] then 4
            else if validInTier (byTier cw) 3 \<noteq> [] then 3
            else 0)"
    and "winningTier cw > 0 \<Longrightarrow> validInTier (byTier cw) (winningTier cw) \<noteq> []"
proof -
  show a: "winningTier cw
         = (if validInTier (byTier cw) 5 \<noteq> [] then 5
            else if validInTier (byTier cw) 4 \<noteq> [] then 4
            else if validInTier (byTier cw) 3 \<noteq> [] then 3
            else 0)"
    unfolding cw_def calculateContestWinners_drawn(5) [OF assms(1)] by (rule winningTierFrom_5)
  show "winningTier cw > 0 \<Longrightarrow> validInTier (byTier cw) (winningTier cw) \<noteq> []"
    unfolding a by (auto split: if_splits)
qed


lemma validInTier_subset_winners:
  assumes "wellFormedResult r" and "k \<in> {3, 4, 5}"
  shows "set (validInTier (byTier (calculateContestWinners es (Some r) pf cid)) k)
         \<subseteq> set (winners (calculateContestWinners es (Some r) pf cid))"
  using assms(2)
  by (auto simp: validInTier_def calculateContestWinners_drawn [OF assms(1)] qualifies_def
        MIN_MATCHES_TO_WIN_def)

lemma scoreOf_None_iff: "scoreOf winning e = None \<longleftrightarrow> noMatch winning e"
  by (auto simp: scoreOf_def noMatch_def split: option.splits)

lemma scoreOf_entry: "scoreOf winning e = Some w \<Longrightarrow> winnerEntry w = e"
  by (auto simp: scoreOf_def split: option.splits if_splits)

lemma scoresOf_entries:
  "w \<in> set (scoresOf winning es) \<Longrightarrow> winnerEntry w \<in> set es \<and> scoreOf winning (winnerEntry w) = Some w"
proof (induction es)
  case Nil
  then show ?case by simp
next
  case (Cons e es)
  then show ?case
    by (cases "scoreOf winning e") (auto simp: scoresOf_Cons dest: scoreOf_entry)
qed

lemma scoresOf_filter: "scoresOf winning (filter (\<lambda>e. \<not> noMatch winning e) es) = scoresOf winning es"
proof (induction es)
  case Nil
  then show ?case by simp
next
  case (Cons e es)
  then show ?case
    by (cases "scoreOf winning e") (auto simp: scoresOf_Cons scoreOf_None_iff [symmetric])
qed

lemma processBatch_append:
  "processBatch g m p pool (xs @ ys) acc
     = (case processBatch g m p pool xs acc of
          Inl e \<Rightarrow> Inl e
        | Inr acc' \<Rightarrow> processBatch g m p pool ys acc')"
  by (induction xs arbitrary: acc) (auto split: sum.splits)

lemma processContests_unbatched:
  "processContests g m p pool keys i acc = processBatch g m p pool (drop i keys) acc"
proof (induction g m p pool keys i acc rule: processContests.induct)
  case (1 g m p pool keys i acc)
  show ?case
  proof (cases "i < length keys")
    case False
    then show ?thesis by (subst processContests.simps) simp
  next
    case True
    have split: "drop i keys = take winnersBatchSize (drop i keys) @ drop (i + winnersBatchSize) keys"
      using append_take_drop_id [of winnersBatchSize "drop i keys"] by (simp add: add.commute)
    show ?thesis
    proof (cases "processBatch g m p pool (take winnersBatchSize (drop i keys)) acc")
      case (Inl e)
      have "processBatch g m p pool (drop i keys) acc = Inl e"
        by (subst split, subst processBatch_append) (simp add: Inl)
      moreover have "processContests g m p pool keys i acc = Inl e"
        using True Inl by (subst processContests.simps) simp
      ultimately show ?thesis by simp
    next
      case (Inr acc')
      have "processBatch g m p pool (drop i keys) acc
            = processBatch g m p pool (drop (i + winnersBatchSize) keys) acc'"
        by (subst split, subst processBatch_append) (simp add: Inr)
      moreover have "processContests g m p pool keys i acc
            = processContests g m p pool keys (i + winnersBatchSize) acc'"
        using True Inr by (subst processContests.simps) simp
      ultimately show ?thesis using "1.IH" [OF True Inr] by simp
    qed
  qed
qed

lemma recordContest_lists:
  "fst (recordContest pool acc cw) = fst acc @ [cw]"
  "fst (snd (recordContest pool acc cw))
     = fst (snd acc) @ (if hasResult cw then winners cw else [])"
  by (simp_all add: recordContest_def Let_def)

lemma processBatch_Inr:
  assumes "processBatch g m p pool keys acc = Inr acc'"
  shows "\<exists>cws. map (contestWinnersOf g m p) keys = map Inr cws
           \<and> fst acc' = fst acc @ cws
           \<and> fst (snd acc')
               = fst (snd acc) @ concat (map (\<lambda>cw. if hasResult cw then winners cw else []) cws)"
  using assms
proof (induction keys arbitrary: acc)
  case Nil
  then show ?case by simp
next
  case (Cons c keys)
  from Cons.prems obtain cw where cw: "contestWinnersOf g m p c = Inr cw"
    and rest: "processBatch g m p pool keys (recordContest pool acc cw) = Inr acc'"
    by (auto simp: processContest_def split: sum.splits)
  from Cons.IH [OF rest] obtain cws
    where cws: "map (contestWinnersOf g m p) keys = map Inr cws"
      "fst acc' = fst (recordContest pool acc cw) @ cws"
      "fst (snd acc') = fst (snd (recordContest pool acc cw))
          @ concat (map (\<lambda>cw. if hasResult cw then winners cw else []) cws)"
    by blast
  show ?case
  proof (intro exI [of _ "cw # cws"] conjI)
    show "map (contestWinnersOf g m p) (c # keys) = map Inr (cw # cws)"
      using cw cws(1) by simp
    show "fst acc' = fst acc @ cw # cws"
      using cws(2) by (simp add: recordContest_lists)
    show "fst (snd acc')
        = fst (snd acc) @ concat (map (\<lambda>cw. if hasResult cw then winners cw else []) (cw # cws))"
      using cws(3) by (simp add: recordContest_lists)
  qed
qed

lemma computeAllWinners_run:
  assumes "computeAllWinners es rs pf = Inr res"
  shows "\<exists>g cws. groupEntriesByContest (scopedEntries es pf) = Inr g
           \<and> map (contestWinnersOf g (resultsMapOf rs) (if pf = ''ALL'' then ''DEFAULT'' else pf))
                 (allContestIdsOf rs g) = map Inr cws
           \<and> allWinners res = concat (map (\<lambda>cw. if hasResult cw then winners cw else []) cws)
           \<and> resultPlatform res = pf"
proof -
  let ?p = "if pf = ''ALL'' then ''DEFAULT'' else pf"
  let ?st = "\<lparr>totalContests = 0, contestsWithWinners = 0,
               statsByTier = [5 \<mapsto> 0, 4 \<mapsto> 0, 3 \<mapsto> 0, 2 \<mapsto> 0, 1 \<mapsto> 0],
               totalWinners = 0, statsTotalPrizeAwarded = 0,
               statsPlatform = pf, statsPrizePool = getPrizePool ?p\<rparr>"
  from assms obtain g where g: "groupEntriesByContest (scopedEntries es pf) = Inr g"
    unfolding computeAllWinners_def scopedEntries_def Let_def by (auto split: sum.splits)
  from assms g obtain fin
    where run: "processContests g (resultsMapOf rs) ?p (getPrizePool ?p) (allContestIdsOf rs g) 0
                  ([], [], ?st) = Inr fin"
      and res: "allWinners res = fst (snd fin)" "resultPlatform res = pf"
    unfolding computeAllWinners_def scopedEntries_def Let_def by (auto split: sum.splits)
  from run have "processBatch g (resultsMapOf rs) ?p (getPrizePool ?p) (allContestIdsOf rs g)
                  ([], [], ?st) = Inr fin"
    by (simp add: processContests_unbatched)
  from processBatch_Inr [OF this] obtain cws
    where "map (contestWinnersOf g (resultsMapOf rs) ?p) (allContestIdsOf rs g) = map Inr cws"
      "fst (snd fin) = concat (map (\<lambda>cw. if hasResult cw then winners cw else []) cws)"
    by auto
  with g res show ?thesis by auto
qed

lemma groupInsert_keys:
  assumes "\<forall>p\<in>set g. \<forall>x\<in>set (snd p). contestKey x = fst p" and "contestKey e = k"
  shows "\<forall>p\<in>set (groupInsert k e g). \<forall>x\<in>set (snd p). contestKey x = fst p"
  using assms(1)
proof (induction g)
  case Nil
  then show ?case using assms(2) by simp
next
  case (Cons q g)
  obtain k' xs where q: "q = (k', xs)" by (cases q)
  from Cons.prems have tl: "\<forall>p\<in>set g. \<forall>x\<in>set (snd p). contestKey x = fst p"
    and hd: "\<forall>x\<in>set xs. contestKey x = k'" by (auto simp: q)
  show ?case
  proof (cases "k' = k")
    case True
    with tl hd assms(2) show ?thesis by (auto simp: q)
  next
    case False
    with Cons.IH [OF tl] hd show ?thesis by (auto simp: q)
  qed
qed

lemma groupPush_Inr:
  "groupPush g e = Inr g' \<Longrightarrow> g' = groupInsert (contestKey e) e g"
  by (auto simp: groupPush_def contestKey_def Let_def split: option.splits if_splits)

lemma groupEntriesFrom_keys:
  assumes "groupEntriesFrom g es = Inr g'"
    and "\<forall>p\<in>set g. \<forall>x\<in>set (snd p). contestKey x = fst p"
  shows "\<forall>p\<in>set g'. \<forall>x\<in>set (snd p). contestKey x = fst p"
  using assms
proof (induction es arbitrary: g)
  case Nil
  then show ?case by simp
next
  case (Cons e es)
  from Cons.prems(1) obtain g1 where g1: "groupPush g e = Inr g1"
    and rest: "groupEntriesFrom g1 es = Inr g'"
    by (auto split: sum.splits)
  have "\<forall>p\<in>set g1. \<forall>x\<in>set (snd p). contestKey x = fst p"
    unfolding groupPush_Inr [OF g1] by (rule groupInsert_keys [OF Cons.prems(2)]) simp
  from Cons.IH [OF rest this] show ?case .
qed

lemma groupEntriesByContest_key:
  assumes "groupEntriesByContest es = Inr g" and "map_of g c = Some xs" and "x \<in> set xs"
  shows "contestKey x = c"
proof -
  have "\<forall>p\<in>set g. \<forall>x\<in>set (snd p). contestKey x = fst p"
    by (rule groupEntriesFrom_keys [OF assms(1) [unfolded groupEntriesByContest_def]]) simp
  moreover from assms(2) have "(c, xs) \<in> set g" by (rule map_of_SomeD)
  ultimately show ?thesis using assms(3) by auto
qed

lemma hasResult_iff:
  "hasResult (calculateContestWinners es result pf cid)
     \<longleftrightarrow> (\<exists>r. result = Some r \<and> wellFormedResult r)"
  by (auto simp: calculateContestWinners_def wellFormedResult_def Let_def split: option.splits)

lemma winners_entries:
  assumes "w \<in> set (winners (calculateContestWinners es result pf cid))"
  shows "winnerEntry w \<in> set es"
proof (cases "\<exists>r. result = Some r \<and> wellFormedResult r")
  case True
  then obtain r where r: "result = Some r" "wellFormedResult r" by blast
  from assms show ?thesis
    unfolding r(1) calculateContestWinners_drawn(3) [OF r(2)]
    by (auto dest: scoresOf_entries)
next
  case False
  then have "winners (calculateContestWinners es result pf cid) = []"
    by (auto simp: calculateContestWinners_def wellFormedResult_def Let_def split: option.splits)
  with assms show ?thesis by simp
qed

lemma calculateContestWinnersOfMember_zero:
  assumes "calculateContestWinnersOfMember k result pf cid = Inr cw"
  shows "\<not> hasResult cw"
proof -
  have malformed: "\<not> (\<exists>r. result = Some r \<and> wellFormedResult r)"
    using assms
    by (auto simp: calculateContestWinnersOfMember_def wellFormedResult_def Let_def
             split: option.splits if_splits)
  from assms have "cw = (calculateContestWinners [] result pf cid)\<lparr>totalEntries := prototypeMemberLength k\<rparr>"
    by (auto simp: calculateContestWinnersOfMember_def Let_def split: option.splits if_splits)
  then have "hasResult cw = hasResult (calculateContestWinners [] result pf cid)" by simp
  with malformed show ?thesis by (simp add: hasResult_iff)
qed

lemma contestWinnersOf_winner:
  assumes g: "groupEntriesByContest es = Inr g"
    and cw: "contestWinnersOf g m p c = Inr cw" and drawn: "hasResult cw"
    and w: "w \<in> set (winners cw)"
  shows "contestKey (winnerEntry w) = c \<and> (\<exists>r. m c = Some r \<and> wellFormedResult r)"
proof (cases "map_of g c")
  case (Some xs)
  with cw have eq: "cw = calculateContestWinners xs (m c) p (Some c)"
    by (simp add: contestWinnersOf_def)
  from w have "winnerEntry w \<in> set xs" unfolding eq by (rule winners_entries)
  with groupEntriesByContest_key [OF g Some] have "contestKey (winnerEntry w) = c" by blast
  moreover from drawn have "\<exists>r. m c = Some r \<and> wellFormedResult r"
    unfolding eq hasResult_iff .
  ultimately show ?thesis by simp
next
  case None
  show ?thesis
  proof (cases "c \<in> set objectPrototypeKeys")
    case True
    with None cw have "calculateContestWinnersOfMember c (m c) p (Some c) = Inr cw"
      by (simp add: contestWinnersOf_def)
    from calculateContestWinnersOfMember_zero [OF this] drawn show ?thesis by simp
  next
    case False
    with None cw have eq: "cw = calculateContestWinners [] (m c) p (Some c)"
      by (simp add: contestWinnersOf_def)
    from w have "winnerEntry w \<in> set []" unfolding eq by (rule winners_entries)
    then show ?thesis by simp
  qed
qed

lemma map_Inr_mem:
  assumes "map f xs = map Inr ys"
  shows "y \<in> set ys \<longleftrightarrow> (\<exists>x\<in>set xs. f x = Inr y)"
proof -
  from arg_cong [OF assms, of set] have "f ` set xs = Inr ` set ys" by simp
  then have "y \<in> set ys \<longleftrightarrow> Inr y \<in> f ` set xs" by auto
  also have "\<dots> \<longleftrightarrow> (\<exists>x\<in>set xs. f x = Inr y)" by (metis image_iff)
  finally show ?thesis .
qed

lemma allWinners_origin:
  assumes run: "computeAllWinners es rs pf = Inr res" and w: "w \<in> set (allWinners res)"
  shows "\<exists>r. resultsMapOf rs (contestKey (winnerEntry w)) = Some r \<and> wellFormedResult r"
proof -
  let ?p = "if pf = ''ALL'' then ''DEFAULT'' else pf"
  from computeAllWinners_run [OF run] obtain g cws
    where g: "groupEntriesByContest (scopedEntries es pf) = Inr g"
      and cws: "map (contestWinnersOf g (resultsMapOf rs) ?p) (allContestIdsOf rs g) = map Inr cws"
      and aw: "allWinners res = concat (map (\<lambda>cw. if hasResult cw then winners cw else []) cws)"
    by blast
  from w aw obtain cw where cw: "cw \<in> set cws" "hasResult cw" "w \<in> set (winners cw)"
    by (auto split: if_splits)
  from cw(1) map_Inr_mem [OF cws] obtain c
    where "contestWinnersOf g (resultsMapOf rs) ?p c = Inr cw" by blast
  from contestWinnersOf_winner [OF g this cw(2,3)] show ?thesis by auto
qed

lemma winners_in_allWinners:
  assumes run: "computeAllWinners all rs sc = Inr res"
    and c: "c \<in> set (contestUniverse all rs sc)"
    and oc: "contestOutcome all rs sc c = Inr oc" and drawn: "hasResult oc"
  shows "set (winners oc) \<subseteq> set (allWinners res)"
proof -
  let ?p = "if sc = ''ALL'' then ''DEFAULT'' else sc"
  from computeAllWinners_run [OF run] obtain g cws
    where g: "groupEntriesByContest (scopedEntries all sc) = Inr g"
      and cws: "map (contestWinnersOf g (resultsMapOf rs) ?p) (allContestIdsOf rs g) = map Inr cws"
      and aw: "allWinners res = concat (map (\<lambda>cw. if hasResult cw then winners cw else []) cws)"
    by blast
  from c g have "c \<in> set (allContestIdsOf rs g)" by (simp add: contestUniverse_def)
  moreover from oc g have "contestWinnersOf g (resultsMapOf rs) ?p c = Inr oc"
    by (simp add: contestOutcome_def)
  ultimately have "oc \<in> set cws" using map_Inr_mem [OF cws] by blast
  with drawn show ?thesis unfolding aw by auto
qed

lemma calculateAllWinnersWith_output:
  "map_sum id fst (calculateAllWinnersWith compute c es rs pf)
     = (case cacheWinners c of
          Some cached \<Rightarrow>
            (if isWinnersCacheValid c es rs \<and> resultPlatform cached = pf then Inr cached
             else compute es rs pf)
        | None \<Rightarrow> compute es rs pf)"
  by (cases "compute es rs pf"; cases "cacheWinners c")
     (simp_all add: calculateAllWinnersWith_def Let_def isWinnersCacheValid_def)

lemma calculateAllWinners_miss:
  assumes "\<not> isWinnersCacheValid cache all rs"
  shows "map_sum id fst (calculateAllWinners cache all rs sc) = computeAllWinners all rs sc"
  using assms unfolding calculateAllWinners_def calculateAllWinnersWith_output
  by (simp split: option.splits)




lemma groupEntriesFrom_total:
  assumes "\<forall>e\<in>set es. contestKey e \<notin> set objectPrototypeKeys"
  shows "\<exists>g'. groupEntriesFrom g es = Inr g'"
  using assms
proof (induction es arbitrary: g)
  case Nil
  show ?case by simp
next
  case (Cons e es)
  from Cons.prems have "groupPush g e = Inr (groupInsert (contestKey e) e g)"
    by (simp add: groupPush_def contestKey_def Let_def split: option.splits)
  moreover from Cons.IH [of "groupInsert (contestKey e) e g"] Cons.prems
  obtain g' where "groupEntriesFrom (groupInsert (contestKey e) e g) es = Inr g'" by auto
  ultimately show ?case by simp
qed

lemma contestWinnersOf_total:
  assumes "c \<notin> set objectPrototypeKeys"
  shows "\<exists>cw. contestWinnersOf g m p c = Inr cw"
  using assms by (cases "map_of g c") (simp_all add: contestWinnersOf_def)

lemma processBatch_total:
  assumes "\<forall>c\<in>set keys. \<exists>cw. contestWinnersOf g m p c = Inr cw"
  shows "\<exists>acc'. processBatch g m p pool keys acc = Inr acc'"
  using assms
proof (induction keys arbitrary: acc)
  case Nil
  show ?case by (rule exI [of _ acc]) simp
next
  case (Cons c keys)
  from Cons.prems obtain cw where "contestWinnersOf g m p c = Inr cw" by auto
  then have "processContest g m p pool acc c = Inr (recordContest pool acc cw)"
    by (simp add: processContest_def)
  moreover from Cons.IH [of "recordContest pool acc cw"] Cons.prems
  obtain acc' where "processBatch g m p pool keys (recordContest pool acc cw) = Inr acc'" by auto
  ultimately have "processBatch g m p pool (c # keys) acc = Inr acc'" by simp
  then show ?case by (rule exI)
qed

lemma groupInsert_fst: "fst ` set (groupInsert k e g) = insert k (fst ` set g)"
  by (induction k e g rule: groupInsert.induct) auto

lemma groupEntriesFrom_fst:
  assumes "groupEntriesFrom g es = Inr g'"
  shows "fst ` set g' = fst ` set g \<union> contestKey ` set es"
  using assms
proof (induction es arbitrary: g)
  case Nil
  then show ?case by simp
next
  case (Cons e es)
  from Cons.prems obtain g1 where g1: "groupPush g e = Inr g1"
    and rest: "groupEntriesFrom g1 es = Inr g'"
    by (auto split: sum.splits)
  from Cons.IH [OF rest] show ?case
    unfolding groupPush_Inr [OF g1] groupInsert_fst by auto
qed

lemma set_objectKeys: "set (objectKeys props) = fst ` set props"
  by (auto simp: objectKeys_def)

lemma set_foldl_setAdd: "set (foldl setAdd ids xs) = set ids \<union> set xs"
  by (induction xs arbitrary: ids) (auto simp: setAdd_def)


lemma set_resultContests:
  "set (foldl (\<lambda>ids r. if resultContest r \<noteq> [] then setAdd ids (resultContest r) else ids) ids rs)
     \<subseteq> set ids \<union> resultContest ` set rs"
proof (induction rs arbitrary: ids)
  case Nil
  show ?case by simp
next
  case (Cons r rs)
  define ids' where "ids' = (if resultContest r \<noteq> [] then setAdd ids (resultContest r) else ids)"
  have sub: "set ids' \<subseteq> set ids \<union> {resultContest r}" by (auto simp: ids'_def setAdd_def)
  have "set (foldl (\<lambda>ids r. if resultContest r \<noteq> [] then setAdd ids (resultContest r) else ids)
               ids' rs) \<subseteq> set ids' \<union> resultContest ` set rs"
    by (rule Cons.IH)
  with sub show ?case unfolding foldl_Cons ids'_def [symmetric] by auto
qed

lemma set_allContestIdsOf:
  "set (allContestIdsOf rs g) \<subseteq> resultContest ` set rs \<union> fst ` set g"
proof -
  have "set (allContestIdsOf rs g)
      = set (foldl (\<lambda>ids r. if resultContest r \<noteq> [] then setAdd ids (resultContest r) else ids)
               [] rs) \<union> fst ` set g"
    by (simp only: allContestIdsOf_def set_foldl_setAdd set_objectKeys)
  with set_resultContests [of "[]" rs] show ?thesis by auto
qed

lemma computeAllWinners_total:
  assumes "\<forall>e\<in>set es. contestKey e \<notin> set objectPrototypeKeys"
    and "\<forall>r\<in>set rs. resultContest r \<notin> set objectPrototypeKeys"
  shows "\<exists>res. computeAllWinners es rs pf = Inr res"
proof -
  let ?p = "if pf = ''ALL'' then ''DEFAULT'' else pf"
  let ?st = "\<lparr>totalContests = 0, contestsWithWinners = 0,
               statsByTier = [5 \<mapsto> 0, 4 \<mapsto> 0, 3 \<mapsto> 0, 2 \<mapsto> 0, 1 \<mapsto> 0],
               totalWinners = 0, statsTotalPrizeAwarded = 0,
               statsPlatform = pf, statsPrizePool = getPrizePool ?p\<rparr>"
  have scoped: "set (scopedEntries es pf) \<subseteq> set es"
    by (auto simp: scopedEntries_def filterByPlatform_def)
  with assms(1) have "\<forall>e\<in>set (scopedEntries es pf). contestKey e \<notin> set objectPrototypeKeys"
    by blast
  from groupEntriesFrom_total [OF this, of "[]"] obtain g
    where g: "groupEntriesByContest (scopedEntries es pf) = Inr g"
    unfolding groupEntriesByContest_def by (elim exE)
  from groupEntriesFrom_fst [OF g [unfolded groupEntriesByContest_def]] scoped
  have keys: "fst ` set g \<subseteq> contestKey ` set es" by auto
  have "c \<notin> set objectPrototypeKeys" if "c \<in> set (allContestIdsOf rs g)" for c
  proof -
    from that set_allContestIdsOf [of rs g]
    have "c \<in> resultContest ` set rs \<or> c \<in> fst ` set g" by blast
    then show ?thesis
    proof
      assume "c \<in> resultContest ` set rs"
      with assms(2) show ?thesis by blast
    next
      assume "c \<in> fst ` set g"
      with keys have "c \<in> contestKey ` set es" by blast
      with assms(1) show ?thesis by blast
    qed
  qed
  then have "\<forall>c\<in>set (allContestIdsOf rs g).
      \<exists>cw. contestWinnersOf g (resultsMapOf rs) ?p c = Inr cw"
    by (intro ballI contestWinnersOf_total)
  from processBatch_total [OF this, of "getPrizePool ?p" "([], [], ?st)"] obtain fin
    where fin: "processBatch g (resultsMapOf rs) ?p (getPrizePool ?p) (allContestIdsOf rs g)
             ([], [], ?st) = Inr fin"
    by (elim exE)
  have "computeAllWinners es rs pf
      = (case groupEntriesByContest (scopedEntries es pf) of
           Inl err \<Rightarrow> Inl err
         | Inr entriesByContest \<Rightarrow>
             (case processContests entriesByContest (resultsMapOf rs) ?p (getPrizePool ?p)
                     (allContestIdsOf rs entriesByContest) 0 ([], [], ?st) of
                Inl err \<Rightarrow> Inl err
              | Inr fin \<Rightarrow>
                  Inr \<lparr>contestResults = sort_key (\<lambda>cw. - parseIntOr0 (cwContest cw)) (fst fin),
                        allWinners = fst (snd fin),
                        winnersStats = (snd (snd fin))\<lparr>totalWinners := length (fst (snd fin))\<rparr>,
                        resultPlatform = pf\<rparr>))"
    unfolding computeAllWinners_def scopedEntries_def Let_def ..
  also have "\<dots> = Inr \<lparr>contestResults = sort_key (\<lambda>cw. - parseIntOr0 (cwContest cw)) (fst fin),
                        allWinners = fst (snd fin),
                        winnersStats = (snd (snd fin))\<lparr>totalWinners := length (fst (snd fin))\<rparr>,
                        resultPlatform = pf\<rparr>"
    unfolding g sum.case processContests_unbatched drop_0 fin ..
  finally show ?thesis by (rule exI)
qed

text \<open>
  Contests that name a member of \<^verbatim>\<open>Object.prototype\<close>: a ticket of such a contest
  makes the grouping throw; a result of such a contest, without tickets, makes the
  scoring throw when it has five numbers, and else gets the zero-value set with the
  \<^verbatim>\<open>length\<close> of the member as \<open>totalEntries\<close>.
\<close>

lemma prototype_contests:
  "map_sum id allWinners (computeAllWinners [sampleTicket1\<lparr>contest := ''constructor''\<rparr>] [] ''ALL'')
     = Inl (TypeError ''push is not a function'')
   \<and> map_sum id allWinners (computeAllWinners [] [tierResult\<lparr>resultContest := ''constructor''\<rparr>] ''ALL'')
     = Inl (TypeError ''entries.forEach is not a function'')
   \<and> map_sum id (\<lambda>res. map (\<lambda>cw. (cwContest cw, hasResult cw, totalEntries cw)) (contestResults res))
        (computeAllWinners []
           [malformedResult\<lparr>resultContest := ''constructor''\<rparr>,
            malformedResult\<lparr>resultContest := ''__proto__''\<rparr>] ''ALL'')
     = Inr [(''constructor'', False, Some 1), (''__proto__'', False, None)]"
  by code_simp

text \<open>
  C2, as the program has it. For a contest with a well-formed result: the winning
  tier is the highest of the tiers 5, 4, 3 whose bucket holds a valid entry, 0 when
  none does; with a winning tier, the prize per winner is the prize pool divided by
  the number of valid entries of that tier and the whole pool is awarded, without one
  nothing is; the winners list holds every valid entry with at least three matches,
  most matches first. With two valid entries in bucket 5 and three in bucket 4 the
  winning tier is 5 and the prize per winner is half the pool, while the entries of
  bucket 4 are in the winners list as well. The winners list of every drawn contest
  of the campaign is part of the \<open>allWinners\<close> that a run returns.
\<close>

theorem calculateContestWinners_tier_and_prize:
  fixes es :: "entry list" and pf :: string and cid :: "string option"
  assumes "wellFormedResult r"
  defines "cw \<equiv> calculateContestWinners es (Some r) pf cid"
  shows "winningTier cw
           = (if validInTier (byTier cw) 5 \<noteq> [] then 5
              else if validInTier (byTier cw) 4 \<noteq> [] then 4
              else if validInTier (byTier cw) 3 \<noteq> [] then 3
              else 0)
       \<and> (winningTier cw > 0
            \<longrightarrow> prizePerWinner cw
                  = prizePool cw / of_nat (length (validInTier (byTier cw) (winningTier cw)))
                \<and> totalPrizeAwarded cw = Some (prizePool cw))
       \<and> (winningTier cw = 0 \<longrightarrow> prizePerWinner cw = 0 \<and> totalPrizeAwarded cw = Some 0)
       \<and> winners cw
           = sort_key (\<lambda>w. - int (matches w)) (filter qualifies (scoresOf (resultNumbers r) es))
       \<and> (length (validInTier (byTier cw) 5) = 2 \<and> length (validInTier (byTier cw) 4) = 3
            \<longrightarrow> winningTier cw = 5 \<and> prizePerWinner cw = prizePool cw / 2
                \<and> set (validInTier (byTier cw) 4) \<subseteq> set (winners cw)
                \<and> set (validInTier (byTier cw) 5) \<subseteq> set (winners cw))
       \<and> (computeAllWinners all rs sc = Inr res
            \<and> c \<in> set (contestUniverse all rs sc) \<and> contestOutcome all rs sc c = Inr oc
            \<and> hasResult oc
            \<longrightarrow> set (winners oc) \<subseteq> set (allWinners res))"
proof (intro conjI impI)
  note tier = winningTier_properties [OF assms(1), of es pf cid, folded cw_def]
  note prize = calculateContestWinners_prize [OF assms(1), of es pf cid, folded cw_def]
  show t: "winningTier cw
           = (if validInTier (byTier cw) 5 \<noteq> [] then 5
              else if validInTier (byTier cw) 4 \<noteq> [] then 4
              else if validInTier (byTier cw) 3 \<noteq> [] then 3
              else 0)" by (rule tier(1))
  show "winners cw
           = sort_key (\<lambda>w. - int (matches w)) (filter qualifies (scoresOf (resultNumbers r) es))"
    unfolding cw_def by (rule calculateContestWinners_drawn(3) [OF assms(1)])
  {
    assume pos: "winningTier cw > 0"
    from tier(2) [OF pos] have ne: "validInTier (byTier cw) (winningTier cw) \<noteq> []" .
    from pos ne show "prizePerWinner cw
                  = prizePool cw / of_nat (length (validInTier (byTier cw) (winningTier cw)))"
      unfolding prize(1) by (simp add: Let_def)
    from pos ne show "totalPrizeAwarded cw = Some (prizePool cw)"
      unfolding prize(2) by (simp add: Let_def)
  }
  {
    assume z: "winningTier cw = 0"
    then show "prizePerWinner cw = 0" unfolding prize(1) by (simp add: Let_def)
    from z show "totalPrizeAwarded cw = Some 0" unfolding prize(2) by (simp add: Let_def)
  }
  {
    assume s: "length (validInTier (byTier cw) 5) = 2 \<and> length (validInTier (byTier cw) 4) = 3"
    then have ne: "validInTier (byTier cw) 5 \<noteq> []" by auto
    with t show five: "winningTier cw = 5" by simp
    from s ne five show "prizePerWinner cw = prizePool cw / 2"
      unfolding prize(1) by (simp add: Let_def)
    show "set (validInTier (byTier cw) 4) \<subseteq> set (winners cw)"
      unfolding cw_def by (rule validInTier_subset_winners [OF assms(1)]) simp
    show "set (validInTier (byTier cw) 5) \<subseteq> set (winners cw)"
      unfolding cw_def by (rule validInTier_subset_winners [OF assms(1)]) simp
  }
  {
    assume "computeAllWinners all rs sc = Inr res
            \<and> c \<in> set (contestUniverse all rs sc) \<and> contestOutcome all rs sc c = Inr oc
            \<and> hasResult oc"
    then show "set (winners oc) \<subseteq> set (allWinners res)"
      by (intro winners_in_allWinners [of all rs sc res c oc]) simp_all
  }
qed

theorem calculateContestWinners_tier_and_prize_witness:
  "wellFormedResult tierResult
   \<and> winningTier (calculateContestWinners tierEntries (Some tierResult) ''DEFAULT'' (Some ''10'')) = 5
   \<and> prizePerWinner (calculateContestWinners tierEntries (Some tierResult) ''DEFAULT'' (Some ''10''))
       = prizePool (calculateContestWinners tierEntries (Some tierResult) ''DEFAULT'' (Some ''10'')) / 2
   \<and> set (validInTier (byTier (calculateContestWinners tierEntries (Some tierResult) ''DEFAULT''
                                  (Some ''10''))) 4)
       \<subseteq> set (winners (calculateContestWinners tierEntries (Some tierResult) ''DEFAULT'' (Some ''10'')))
   \<and> (\<exists>res oc. computeAllWinners tierEntries [tierResult] ''ALL'' = Inr res
         \<and> contestOutcome tierEntries [tierResult] ''ALL'' ''10'' = Inr oc
         \<and> length (winners oc) = 5
         \<and> set (winners oc) \<subseteq> set (allWinners res))"
proof -
  let ?cw = "calculateContestWinners tierEntries (Some tierResult) ''DEFAULT'' (Some ''10'')"
  have wf: "wellFormedResult tierResult" by code_simp
  have five: "length (validInTier (byTier ?cw) 5) = 2" by code_simp
  have four: "length (validInTier (byTier ?cw) 4) = 3" by code_simp
  have uni: "''10'' \<in> set (contestUniverse tierEntries [tierResult] ''ALL'')" by code_simp
  have "\<not> isl (computeAllWinners tierEntries [tierResult] ''ALL'')" by code_simp
  then obtain res where run: "computeAllWinners tierEntries [tierResult] ''ALL'' = Inr res"
    by (cases "computeAllWinners tierEntries [tierResult] ''ALL''") simp_all
  have "map_sum id (\<lambda>oc. (hasResult oc, length (winners oc)))
          (contestOutcome tierEntries [tierResult] ''ALL'' ''10'') = Inr (True, 5)" by code_simp
  then obtain oc where oc: "contestOutcome tierEntries [tierResult] ''ALL'' ''10'' = Inr oc"
    and drawn: "hasResult oc" and len: "length (winners oc) = 5"
    by (cases "contestOutcome tierEntries [tierResult] ''ALL'' ''10''") auto
  note t = calculateContestWinners_tier_and_prize
    [OF wf, where es = tierEntries and pf = "''DEFAULT''" and cid = "Some ''10''"
       and c = "''10''" and all = tierEntries and rs = "[tierResult]" and sc = "''ALL''"
       and res = res and oc = oc]
  from t five four have a: "winningTier ?cw = 5" "prizePerWinner ?cw = prizePool ?cw / 2"
    "set (validInTier (byTier ?cw) 4) \<subseteq> set (winners ?cw)" by blast+
  from t run uni oc drawn have "set (winners oc) \<subseteq> set (allWinners res)" by blast
  with run oc len
  have b: "\<exists>res oc. computeAllWinners tierEntries [tierResult] ''ALL'' = Inr res
         \<and> contestOutcome tierEntries [tierResult] ''ALL'' ''10'' = Inr oc
         \<and> length (winners oc) = 5
         \<and> set (winners oc) \<subseteq> set (allWinners res)" by blast
  from wf a b show ?thesis by (intro conjI)
qed

text \<open>
  C2 as claimed fails in its last part: in contest 10, with the tickets \<open>W1\<close>, \<open>W2\<close>
  matching five numbers and \<open>W3\<close>, \<open>W4\<close>, \<open>W5\<close> matching four, all valid, the winning
  tier is 5 and the prize per winner 500, and the three tickets of bucket 4 are in
  \<open>allWinners\<close>.
\<close>

theorem tier_exclusivity_counterexample:
  "winningTier (calculateContestWinners tierEntries (Some tierResult) ''DEFAULT'' (Some ''10'')) = 5
   \<and> prizePerWinner (calculateContestWinners tierEntries (Some tierResult) ''DEFAULT'' (Some ''10''))
       = 500
   \<and> map (\<lambda>w. (ticketNumber (winnerEntry w), matches w, winnerIsValid w))
        (validInTier (byTier (calculateContestWinners tierEntries (Some tierResult) ''DEFAULT''
                                (Some ''10''))) 4)
       = [(''W3'', 4, True), (''W4'', 4, True), (''W5'', 4, True)]
   \<and> map_sum id (\<lambda>run. map (\<lambda>w. (ticketNumber (winnerEntry w), matches w)) (allWinners (fst run)))
        (calculateAllWinners emptyCache tierEntries [tierResult] ''ALL'')
       = Inr [(''W1'', 5), (''W2'', 5), (''W3'', 4), (''W4'', 4), (''W5'', 4)]"
  by code_simp

text \<open>
  C4. Without a result, with a result marked as no draw, or with fewer than five
  winning numbers, \<open>calculateContestWinners\<close> returns the zero-value set: no result, no
  winners, no buckets, tier 0, prize 0, and the number of the entries passed in as
  \<open>totalEntries\<close>; it is a total function, nothing is thrown. A contest whose
  result, as looked up by \<open>calculateAllWinners\<close>, is missing or such a result has none
  of its entries in the \<open>allWinners\<close> that a run returns; a run that does not hit the
  cache is this computation.
\<close>

theorem calculateContestWinners_no_result:
  "(result = None \<or> (\<exists>r. result = Some r \<and> (isNoDraw r \<or> length (resultNumbers r) < 5))
      \<longrightarrow> hasResult (calculateContestWinners es result pf cid) = False
          \<and> winners (calculateContestWinners es result pf cid) = []
          \<and> winningTier (calculateContestWinners es result pf cid) = 0
          \<and> totalEntries (calculateContestWinners es result pf cid) = Some (length es)
          \<and> byTier (calculateContestWinners es result pf cid) = Map.empty
          \<and> winningNumbers (calculateContestWinners es result pf cid) = []
          \<and> prizePerWinner (calculateContestWinners es result pf cid) = 0)
   \<and> (computeAllWinners all rs sc = Inr res
        \<and> (resultsMapOf rs c = None
            \<or> (\<exists>r. resultsMapOf rs c = Some r \<and> (isNoDraw r \<or> length (resultNumbers r) < 5)))
      \<longrightarrow> (\<forall>w\<in>set (allWinners res). contestKey (winnerEntry w) \<noteq> c))
   \<and> (\<not> isWinnersCacheValid cache all rs
      \<longrightarrow> map_sum id fst (calculateAllWinners cache all rs sc) = computeAllWinners all rs sc)"
proof (intro conjI impI ballI)
  assume "result = None \<or> (\<exists>r. result = Some r \<and> (isNoDraw r \<or> length (resultNumbers r) < 5))"
  then show "hasResult (calculateContestWinners es result pf cid) = False"
    "winners (calculateContestWinners es result pf cid) = []"
    "winningTier (calculateContestWinners es result pf cid) = 0"
    "totalEntries (calculateContestWinners es result pf cid) = Some (length es)"
    "byTier (calculateContestWinners es result pf cid) = Map.empty"
    "winningNumbers (calculateContestWinners es result pf cid) = []"
    "prizePerWinner (calculateContestWinners es result pf cid) = 0"
    by (auto simp: calculateContestWinners_def Let_def)
next
  fix w
  assume h: "computeAllWinners all rs sc = Inr res
        \<and> (resultsMapOf rs c = None
            \<or> (\<exists>r. resultsMapOf rs c = Some r \<and> (isNoDraw r \<or> length (resultNumbers r) < 5)))"
    and w: "w \<in> set (allWinners res)"
  from h have run: "computeAllWinners all rs sc = Inr res" by simp
  from allWinners_origin [OF run w] obtain r
    where r: "resultsMapOf rs (contestKey (winnerEntry w)) = Some r" "wellFormedResult r" by blast
  show "contestKey (winnerEntry w) \<noteq> c"
  proof
    assume "contestKey (winnerEntry w) = c"
    with r h show False by (auto simp: wellFormedResult_def)
  qed
next
  assume "\<not> isWinnersCacheValid cache all rs"
  then show "map_sum id fst (calculateAllWinners cache all rs sc) = computeAllWinners all rs sc"
    by (rule calculateAllWinners_miss)
qed

theorem calculateContestWinners_no_result_witness:
  "length (resultNumbers malformedResult) = 4
   \<and> hasResult (calculateContestWinners tierEntries (Some malformedResult) ''DEFAULT'' (Some ''10''))
       = False
   \<and> winners (calculateContestWinners tierEntries (Some malformedResult) ''DEFAULT'' (Some ''10'')) = []
   \<and> winningTier (calculateContestWinners tierEntries (Some malformedResult) ''DEFAULT'' (Some ''10''))
       = 0
   \<and> totalEntries (calculateContestWinners tierEntries (Some malformedResult) ''DEFAULT'' (Some ''10''))
       = Some 5
   \<and> (\<exists>res. computeAllWinners tierEntries [malformedResult] ''ALL'' = Inr res
         \<and> ''10'' \<notin> (\<lambda>w. contestKey (winnerEntry w)) ` set (allWinners res))
   \<and> map_sum id (\<lambda>run. allWinners (fst run))
        (calculateAllWinners emptyCache tierEntries [malformedResult] ''ALL'') = Inr []"
proof -
  have four: "length (resultNumbers malformedResult) = 4" by code_simp
  have len: "length tierEntries = 5" by code_simp
  have look: "resultsMapOf [malformedResult] ''10'' = Some malformedResult" by code_simp
  have miss: "\<not> isWinnersCacheValid emptyCache tierEntries [malformedResult]" by code_simp
  have "\<not> isl (computeAllWinners tierEntries [malformedResult] ''ALL'')" by code_simp
  then obtain res where run: "computeAllWinners tierEntries [malformedResult] ''ALL'' = Inr res"
    by (cases "computeAllWinners tierEntries [malformedResult] ''ALL''") simp_all
  note t = calculateContestWinners_no_result
    [where result = "Some malformedResult" and es = tierEntries and pf = "''DEFAULT''"
       and cid = "Some ''10''" and rs = "[malformedResult]" and c = "''10''"
       and all = tierEntries and sc = "''ALL''" and cache = emptyCache and res = res]
  from t four len
  have a: "hasResult (calculateContestWinners tierEntries (Some malformedResult) ''DEFAULT'' (Some ''10''))
       = False"
    "winners (calculateContestWinners tierEntries (Some malformedResult) ''DEFAULT'' (Some ''10'')) = []"
    "winningTier (calculateContestWinners tierEntries (Some malformedResult) ''DEFAULT'' (Some ''10''))
       = 0"
    "totalEntries (calculateContestWinners tierEntries (Some malformedResult) ''DEFAULT'' (Some ''10''))
       = Some 5"
    by simp_all
  from t run look four
  have "\<forall>w\<in>set (allWinners res). contestKey (winnerEntry w) \<noteq> ''10''" by simp
  with run have b: "\<exists>res. computeAllWinners tierEntries [malformedResult] ''ALL'' = Inr res
         \<and> ''10'' \<notin> (\<lambda>w. contestKey (winnerEntry w)) ` set (allWinners res)"
    by auto
  have e: "map_sum id (\<lambda>run. allWinners (fst run))
        (calculateAllWinners emptyCache tierEntries [malformedResult] ''ALL'') = Inr []"
    by code_simp
  from four a b e show ?thesis by (intro conjI)
qed

text \<open>
  C10. For a contest with a well-formed result, an entry whose list of numbers is
  missing or empty, or which matches no winning number, is counted in
  \<open>totalEntries\<close>, is in no bucket of \<open>byTier\<close> and not in the winners list; leaving
  all such entries out changes neither the winners list, nor the buckets, the winning
  tier, the prize per winner or the prize awarded.
\<close>

theorem no_match_contributes_nothing:
  fixes es :: "entry list" and pf :: string and cid :: "string option"
  assumes "wellFormedResult r"
  defines "cw \<equiv> calculateContestWinners es (Some r) pf cid"
    and "cw' \<equiv> calculateContestWinners (filter (\<lambda>e. \<not> noMatch (resultNumbers r) e) es) (Some r) pf cid"
  shows "totalEntries cw = Some (length es)
       \<and> (\<forall>e. noMatch (resultNumbers r) e
            \<longrightarrow> e \<notin> winnerEntry ` set (winners cw)
                \<and> (\<forall>k bucket. byTier cw k = Some bucket \<longrightarrow> e \<notin> winnerEntry ` set bucket))
       \<and> winners cw' = winners cw \<and> byTier cw' = byTier cw
       \<and> winningTier cw' = winningTier cw \<and> prizePerWinner cw' = prizePerWinner cw
       \<and> totalPrizeAwarded cw' = totalPrizeAwarded cw"
proof -
  let ?W = "resultNumbers r"
  note d = calculateContestWinners_drawn [OF assms(1)]
  have total: "totalEntries cw = Some (length es)" unfolding cw_def by (rule d(2))
  have scored: "\<not> noMatch ?W (winnerEntry w)" if "w \<in> set (scoresOf ?W es)" for w
    using scoresOf_entries [OF that] by (auto simp: scoreOf_None_iff [symmetric])
  have out: "e \<notin> winnerEntry ` set (winners cw)
        \<and> (\<forall>k bucket. byTier cw k = Some bucket \<longrightarrow> e \<notin> winnerEntry ` set bucket)"
    if "noMatch ?W e" for e
  proof (intro conjI allI impI)
    show "e \<notin> winnerEntry ` set (winners cw)"
      unfolding cw_def d(3) using that scored by auto
    fix k bucket assume "byTier cw k = Some bucket"
    then have "set bucket \<subseteq> set (scoresOf ?W es)"
      unfolding cw_def d(4) by (auto split: if_splits)
    with that scored show "e \<notin> winnerEntry ` set bucket" by auto
  qed
  have w: "winners cw' = winners cw"
    unfolding cw_def cw'_def d(3) by (simp add: scoresOf_filter)
  have b: "byTier cw' = byTier cw"
    unfolding cw_def cw'_def by (rule ext) (simp add: d(4) scoresOf_filter)
  have t: "winningTier cw' = winningTier cw"
    using b unfolding cw_def cw'_def d(5) by simp
  note p = calculateContestWinners_prize [OF assms(1)]
  have pool: "prizePool cw' = prizePool cw" unfolding cw_def cw'_def by (simp add: d(6))
  have pp: "prizePerWinner cw' = prizePerWinner cw"
    using b t pool unfolding cw_def cw'_def p(1) by (simp add: Let_def)
  have tp: "totalPrizeAwarded cw' = totalPrizeAwarded cw"
    using b t pool unfolding cw_def cw'_def p(2) by (simp add: Let_def)
  from total out w b t pp tp show ?thesis by blast
qed

theorem no_match_contributes_nothing_witness:
  "wellFormedResult tierResult
   \<and> noMatch (resultNumbers tierResult) blankTicket \<and> noMatch (resultNumbers tierResult) missTicket
   \<and> totalEntries (calculateContestWinners (blankTicket # missTicket # tierEntries) (Some tierResult)
                      ''DEFAULT'' None) = Some 7
   \<and> blankTicket \<notin> winnerEntry ` set (winners (calculateContestWinners
         (blankTicket # missTicket # tierEntries) (Some tierResult) ''DEFAULT'' None))
   \<and> missTicket \<notin> winnerEntry ` set (winners (calculateContestWinners
         (blankTicket # missTicket # tierEntries) (Some tierResult) ''DEFAULT'' None))
   \<and> winners (calculateContestWinners (blankTicket # missTicket # tierEntries) (Some tierResult)
                 ''DEFAULT'' None)
       = winners (calculateContestWinners tierEntries (Some tierResult) ''DEFAULT'' None)
   \<and> prizePerWinner (calculateContestWinners (blankTicket # missTicket # tierEntries)
                        (Some tierResult) ''DEFAULT'' None)
       = prizePerWinner (calculateContestWinners tierEntries (Some tierResult) ''DEFAULT'' None)"
proof -
  let ?es = "blankTicket # missTicket # tierEntries"
  have wf: "wellFormedResult tierResult" by code_simp
  have n: "noMatch (resultNumbers tierResult) blankTicket"
    "noMatch (resultNumbers tierResult) missTicket" by code_simp+
  have f: "filter (\<lambda>e. \<not> noMatch (resultNumbers tierResult) e) ?es = tierEntries" by code_simp
  have len: "length ?es = 7" by code_simp
  note t = no_match_contributes_nothing
    [OF wf, where es = ?es and pf = "''DEFAULT''" and cid = None, unfolded f]
  from t len have a: "totalEntries (calculateContestWinners ?es (Some tierResult) ''DEFAULT'' None) = Some 7"
    by simp
  from t n have b: "blankTicket \<notin> winnerEntry ` set (winners (calculateContestWinners
         ?es (Some tierResult) ''DEFAULT'' None))"
    "missTicket \<notin> winnerEntry ` set (winners (calculateContestWinners
         ?es (Some tierResult) ''DEFAULT'' None))" by blast+
  from t have c: "winners (calculateContestWinners ?es (Some tierResult) ''DEFAULT'' None)
       = winners (calculateContestWinners tierEntries (Some tierResult) ''DEFAULT'' None)"
    "prizePerWinner (calculateContestWinners ?es (Some tierResult) ''DEFAULT'' None)
       = prizePerWinner (calculateContestWinners tierEntries (Some tierResult) ''DEFAULT'' None)"
    by simp_all
  from wf n a b c show ?thesis by (intro conjI)
qed



end
